theory Spec2Isabelle
  imports Main "HOL-Library.Sublist"
begin

section \<open>Strings and POSIX paths\<close>

text \<open>
  JavaScript strings are modelled as \<^typ>\<open>string\<close>, lists of 8-bit characters; a
  character outside ASCII stands as the bytes of its UTF-8 form. Where the source works
  on single characters (the case folding and the wildcards of the glob matcher) the
  model is that of ASCII names. Numbers are integers.
  \<open>split_on c s\<close> is \<^verbatim>\<open>s.split(c)\<close> for a one-character separator: it never
  returns the empty list, and \<open>join sep\<close> is \<^verbatim>\<open>Array.prototype.join\<close>.
\<close>

fun split_on :: "char \<Rightarrow> string \<Rightarrow> string list" where
  "split_on c [] = [[]]"
| "split_on c (x # xs) =
     (if x = c then [] # split_on c xs
      else (case split_on c xs of [] \<Rightarrow> [[x]] | s # ss \<Rightarrow> (x # s) # ss))"

fun join :: "string \<Rightarrow> string list \<Rightarrow> string" where
  "join sep [] = []"
| "join sep [x] = x"
| "join sep (x # y # ys) = x @ sep @ join sep (y # ys)"

fun startsWith :: "string \<Rightarrow> string \<Rightarrow> bool" where
  "startsWith s [] = True"
| "startsWith [] (p # ps) = False"
| "startsWith (c # s) (p # ps) = (c = p \<and> startsWith s ps)"

text \<open>
  The node runs on a POSIX host: \<^verbatim>\<open>path.sep\<close> is \<open>/\<close>. The functions of Node's
  \<^verbatim>\<open>path\<close> module that the source calls are modelled segment-wise.
  \<open>normalizeString\<close> walks the segments of a path with a stack: an empty segment and
  \<open>.\<close> are dropped, \<open>..\<close> removes the last kept segment (or is itself kept when the path
  is relative and nothing is left to remove), every other segment is kept.
\<close>

definition sep :: string where
  "sep = ''/''"

definition norm_step :: "bool \<Rightarrow> string list \<Rightarrow> string \<Rightarrow> string list" where
  "norm_step allowAboveRoot stack seg =
     (if seg = [] \<or> seg = ''.'' then stack
      else if seg = ''..'' then
        (if stack \<noteq> [] \<and> last stack \<noteq> ''..'' then butlast stack
         else if allowAboveRoot then stack @ [''..''] else stack)
      else stack @ [seg])"

definition normalizeSegs :: "bool \<Rightarrow> string \<Rightarrow> string list" where
  "normalizeSegs allowAboveRoot p = foldl (norm_step allowAboveRoot) [] (split_on CHR ''/'' p)"

definition normalizeString :: "bool \<Rightarrow> string \<Rightarrow> string" where
  "normalizeString allowAboveRoot p = join sep (normalizeSegs allowAboveRoot p)"

definition isAbsolute :: "string \<Rightarrow> bool" where
  "isAbsolute p = (case p of [] \<Rightarrow> False | c # _ \<Rightarrow> c = CHR ''/'')"

text \<open>
  \<^verbatim>\<open>path.resolve(...args)\<close>: the arguments are taken from the right, empty ones are
  skipped, until an absolute one has been prepended; the working directory \<open>cwd\<close> of
  the process is taken last. The first argument of \<open>resolve_aux\<close> is the list of the
  paths still to be taken, the rightmost first.
\<close>

fun resolve_aux :: "string list \<Rightarrow> string \<Rightarrow> string \<times> bool" where
  "resolve_aux [] acc = (acc, False)"
| "resolve_aux (p # ps) acc =
     (if p = [] then resolve_aux ps acc
      else if isAbsolute p then (p @ sep @ acc, True)
      else resolve_aux ps (p @ sep @ acc))"

definition resolve :: "string \<Rightarrow> string list \<Rightarrow> string" where
  "resolve cwd args =
     (case resolve_aux (rev args @ [cwd]) [] of
        (resolvedPath, resolvedAbsolute) \<Rightarrow>
          (let n = normalizeString (\<not> resolvedAbsolute) resolvedPath
           in if resolvedAbsolute then sep @ n
              else if n \<noteq> [] then n else ''.''))"

text \<open>
  The components of a path are its non-empty segments.
\<close>

definition segments :: "string \<Rightarrow> string list" where
  "segments p = filter (\<lambda>s. s \<noteq> []) (split_on CHR ''/'' p)"

text \<open>
  \<^verbatim>\<open>path.normalize\<close>, \<^verbatim>\<open>path.join\<close> and \<^verbatim>\<open>path.relative\<close>. The relative path
  from one resolved path to another climbs out of what is left of the first after their
  common components and descends along what is left of the second.
\<close>

definition normalize :: "string \<Rightarrow> string" where
  "normalize p =
     (if p = [] then ''.''
      else
        (let trailingSeparator = (last p = CHR ''/'');
             n = normalizeString (\<not> isAbsolute p) p
         in if n = [] then
              (if isAbsolute p then sep else if trailingSeparator then ''./'' else ''.'')
            else
              (let n' = (if trailingSeparator then n @ sep else n)
               in if isAbsolute p then sep @ n' else n')))"

definition path_join :: "string list \<Rightarrow> string" where
  "path_join args =
     (let joined = join sep (filter (\<lambda>a. a \<noteq> []) args)
      in if joined = [] then ''.'' else normalize joined)"

fun drop_common :: "string list \<Rightarrow> string list \<Rightarrow> string list \<times> string list" where
  "drop_common (x # xs) (y # ys) = (if x = y then drop_common xs ys else (x # xs, y # ys))"
| "drop_common xs ys = (xs, ys)"

definition path_relative :: "string \<Rightarrow> string \<Rightarrow> string \<Rightarrow> string" where
  "path_relative cwd from to =
     (if from = to then []
      else
        (let from' = resolve cwd [from]; to' = resolve cwd [to]
         in if from' = to' then []
            else (case drop_common (segments from') (segments to') of
                    (up, down) \<Rightarrow> join sep (map (\<lambda>s. ''..'') up @ down))))"

subsection \<open>validatePath\<close>

datatype error = ApplicationError string | NodeOperationError string

definition traversal_message :: "string \<Rightarrow> string \<Rightarrow> string \<Rightarrow> string" where
  "traversal_message relativePath resolved resolvedRoot =
     ''Path traversal detected - access denied. '' @
     ''Attempted path: \"'' @ relativePath @ ''\" resolved to \"'' @ resolved @ ''\". '' @
     ''Path must be relative and within root: \"'' @ resolvedRoot @ ''\"''"

definition validatePath :: "string \<Rightarrow> string \<Rightarrow> string \<Rightarrow> error + string" where
  "validatePath cwd rootPath relativePath =
     (let resolvedRoot = resolve cwd [rootPath];
          resolved = resolve cwd [resolvedRoot, relativePath]
      in if \<not> startsWith resolved (resolvedRoot @ sep) \<and> resolved \<noteq> resolvedRoot
         then Inl (ApplicationError (traversal_message relativePath resolved resolvedRoot))
         else Inr resolved)"

text \<open>A path lies under a root when the root's components are an initial part of its own.\<close>

definition inside_root :: "string \<Rightarrow> string \<Rightarrow> bool" where
  "inside_root rootDir p = prefix (segments rootDir) (segments p)"


text \<open>A component of a resolved path: not empty and without a separator.\<close>

definition clean :: "string \<Rightarrow> bool" where
  "clean s = (s \<noteq> [] \<and> CHR ''/'' \<notin> set s)"


section \<open>GlobMatcher\<close>

text \<open>
  \<open>globToRegex\<close> builds the source text of a regular expression by three successive
  \<^verbatim>\<open>String.prototype.replace\<close> passes and compiles it with the flag \<open>i\<close>. The first
  pass puts a backslash before each of \<^verbatim>\<open>. + ^ $ { } ( ) | [ ]\<close> and before a backslash, the second
  turns \<open>*\<close> into \<open>.*\<close>, the third turns \<open>?\<close> into \<open>.\<close>.
\<close>

definition backslash :: char where
  "backslash = CHR 0x5C"

definition regex_special :: "char \<Rightarrow> bool" where
  "regex_special c = (c \<in> set ''.+^${}()|[]'' \<or> c = backslash)"

definition escape_special :: "string \<Rightarrow> string" where
  "escape_special g = concat (map (\<lambda>c. if regex_special c then [backslash, c] else [c]) g)"

definition replace_star :: "string \<Rightarrow> string" where
  "replace_star g = concat (map (\<lambda>c. if c = CHR ''*'' then ''.*'' else [c]) g)"

definition replace_question :: "string \<Rightarrow> string" where
  "replace_question g = concat (map (\<lambda>c. if c = CHR ''?'' then ''.'' else [c]) g)"

definition globToRegex :: "string \<Rightarrow> string" where
  "globToRegex glob =
     (let escaped = replace_question (replace_star (escape_special glob))
      in ''^'' @ escaped @ ''$'')"

text \<open>
  The regular expressions that \<open>globToRegex\<close> can produce are sequences of five kinds of
  term: the assertions \<open>^\<close> and \<open>$\<close>, an escaped syntax character, the wildcard \<open>.\<close> with
  or without a following \<open>*\<close>, and a plain character. \<open>parse_regex\<close> reads this fragment
  of the pattern language and gives \<open>None\<close> for anything else.
\<close>

datatype atom = BOL | EOL | Lit char | AnyChar | AnyStar

fun parse_regex :: "string \<Rightarrow> atom list option" where
  "parse_regex [] = Some []"
| "parse_regex (c # rest) =
     (if c = backslash then
        (case rest of
           [] \<Rightarrow> None
         | d # rest' \<Rightarrow>
             (if regex_special d then map_option ((#) (Lit d)) (parse_regex rest') else None))
      else if c = CHR ''.'' then
        (case rest of
           [] \<Rightarrow> Some [AnyChar]
         | d # rest' \<Rightarrow>
             (if d = CHR ''*'' then map_option ((#) AnyStar) (parse_regex rest')
              else map_option ((#) AnyChar) (parse_regex rest)))
      else if c = CHR ''^'' then map_option ((#) BOL) (parse_regex rest)
      else if c = CHR ''$'' then map_option ((#) EOL) (parse_regex rest)
      else if regex_special c \<or> c = CHR ''*'' \<or> c = CHR ''?'' then None
      else map_option ((#) (Lit c)) (parse_regex rest))"

text \<open>
  Matching under the flag \<open>i\<close> and without the flags \<open>s\<close> and \<open>m\<close>: two characters
  are equal when their upper-case forms are, \<open>.\<close> matches every character except a
  line terminator, \<open>^\<close> holds at the start of the input only and \<open>$\<close> at its end only.
  The model folds the case of the ASCII letters, and its line terminators are line feed
  and carriage return. The expression of the source also folds letters outside ASCII,
  takes a character outside the basic plane as two, and rejects U+2028 and U+2029 as
  line terminators: on names that are not ASCII the model is not that of the source.
\<close>

definition canonicalize :: "char \<Rightarrow> char" where
  "canonicalize c =
     (let n = (of_char c :: nat) in if 97 \<le> n \<and> n \<le> 122 then char_of (n - 32) else c)"

definition line_terminator :: "char \<Rightarrow> bool" where
  "line_terminator c = (c = CHR 0x0A \<or> c = CHR 0x0D)"

text \<open>
  \<open>match_here atoms s atStart\<close>: the atoms match an initial part of \<open>s\<close>, where
  \<open>atStart\<close> tells whether \<open>s\<close> is the whole input.
\<close>

fun match_here :: "atom list \<Rightarrow> string \<Rightarrow> bool \<Rightarrow> bool" where
  "match_here [] s atStart = True"
| "match_here (BOL # as) s atStart = (atStart \<and> match_here as s atStart)"
| "match_here (EOL # as) s atStart = (s = [] \<and> match_here as s atStart)"
| "match_here (Lit c # as) [] atStart = False"
| "match_here (Lit c # as) (d # s) atStart =
     (canonicalize c = canonicalize d \<and> match_here as s False)"
| "match_here (AnyChar # as) [] atStart = False"
| "match_here (AnyChar # as) (d # s) atStart = (\<not> line_terminator d \<and> match_here as s False)"
| "match_here (AnyStar # as) [] atStart = match_here as [] atStart"
| "match_here (AnyStar # as) (d # s) atStart =
     (match_here as (d # s) atStart \<or> (\<not> line_terminator d \<and> match_here (AnyStar # as) s False))"

text \<open>\<^verbatim>\<open>RegExp.prototype.test\<close>: a match may start at any position of the input.\<close>

fun search_from :: "atom list \<Rightarrow> string \<Rightarrow> bool \<Rightarrow> bool" where
  "search_from as [] atStart = match_here as [] atStart"
| "search_from as (d # s) atStart = (match_here as (d # s) atStart \<or> search_from as s False)"

definition regex_test :: "string \<Rightarrow> string \<Rightarrow> bool" where
  "regex_test source s =
     (case parse_regex source of None \<Rightarrow> False | Some as \<Rightarrow> search_from as s True)"

text \<open>
  The glob language in the words of the specification: \<open>*\<close> stands for zero or more of
  any character, \<open>?\<close> for exactly one character, every other character for itself up to
  case, and the whole name has to be matched.
\<close>

fun glob_match :: "string \<Rightarrow> string \<Rightarrow> bool" where
  "glob_match [] s = (s = [])"
| "glob_match (p # ps) [] = (p = CHR ''*'' \<and> glob_match ps [])"
| "glob_match (p # ps) (d # s) =
     (if p = CHR ''*'' then glob_match ps (d # s) \<or> glob_match (p # ps) s
      else if p = CHR ''?'' then glob_match ps s
      else canonicalize p = canonicalize d \<and> glob_match ps s)"

text \<open>
  What the three passes together make of one character of the glob, and the term of the
  regular expression that it stands for.
\<close>

definition ascii_name :: "string \<Rightarrow> bool" where
  "ascii_name s = list_all (\<lambda>c. (of_char c :: nat) < 128) s"

definition glob_char :: "char \<Rightarrow> string" where
  "glob_char c =
     (if regex_special c then [backslash, c]
      else if c = CHR ''*'' then ''.*''
      else if c = CHR ''?'' then ''.''
      else [c])"

definition atom_of :: "char \<Rightarrow> atom" where
  "atom_of c = (if c = CHR ''*'' then AnyStar else if c = CHR ''?'' then AnyChar else Lit c)"

section \<open>The file system\<close>

text \<open>
  A directory tree as \<^verbatim>\<open>fs.readdirSync(dir, { withFileTypes: true })\<close> shows it: a
  directory holds its entries in the order in which the read returns them, each with its
  name. \<open>Unreadable\<close> is a directory whose read throws, \<open>Symlink\<close> a symbolic link and
  \<open>Other\<close> any further kind of entry (a socket, a pipe, a device). A directory entry
  reports the kind of the entry itself, so a symbolic link is never a directory and the
  walks below do not follow it: what they see is a finite tree.
\<close>

datatype node =
    File string
  | Dir "(string \<times> node) list"
  | Unreadable
  | Symlink
  | Other

type_synonym dirent = "string \<times> node"

fun isDirectoryNode :: "node \<Rightarrow> bool" where
  "isDirectoryNode (Dir es) = True"
| "isDirectoryNode Unreadable = True"
| "isDirectoryNode n = False"

definition isDirectory :: "dirent \<Rightarrow> bool" where
  "isDirectory e = isDirectoryNode (snd e)"

definition isFile :: "dirent \<Rightarrow> bool" where
  "isFile e = (case snd e of File c \<Rightarrow> True | _ \<Rightarrow> False)"

definition isSymbolicLink :: "dirent \<Rightarrow> bool" where
  "isSymbolicLink e = (snd e = Symlink)"

text \<open>\<open>readdirSync\<close> is \<open>None\<close> where the call throws.\<close>

fun readdirSync :: "node \<Rightarrow> dirent list option" where
  "readdirSync (Dir es) = Some es"
| "readdirSync n = None"

subsection \<open>Sorting\<close>

text \<open>
  \<^verbatim>\<open>Array.prototype.sort\<close> with a comparator is stable: an element stays before a
  later one unless the comparator puts it strictly after. \<^verbatim>\<open>String.prototype.localeCompare\<close>
  is a function of the host's collation; it is the parameter \<open>lc\<close> of everything that
  sorts.
\<close>

fun insort_cmp :: "('a \<Rightarrow> 'a \<Rightarrow> int) \<Rightarrow> 'a \<Rightarrow> 'a list \<Rightarrow> 'a list" where
  "insort_cmp cmp x [] = [x]"
| "insort_cmp cmp x (y # ys) = (if cmp x y \<le> 0 then x # y # ys else y # insort_cmp cmp x ys)"

definition sort_cmp :: "('a \<Rightarrow> 'a \<Rightarrow> int) \<Rightarrow> 'a list \<Rightarrow> 'a list" where
  "sort_cmp cmp xs = foldr (insort_cmp cmp) xs []"

definition dirent_compare :: "(string \<Rightarrow> string \<Rightarrow> int) \<Rightarrow> dirent \<Rightarrow> dirent \<Rightarrow> int" where
  "dirent_compare lc a b =
     (if isDirectory a \<and> \<not> isDirectory b then - 1
      else if \<not> isDirectory a \<and> isDirectory b then 1
      else lc (fst a) (fst b))"

text \<open>
  A comparator is consistent when it compares any two elements one way or the other and
  does so transitively; a stable sort is determined by such a comparator.
\<close>

definition consistent :: "('a \<Rightarrow> 'a \<Rightarrow> int) \<Rightarrow> bool" where
  "consistent cmp =
     ((\<forall>a b. cmp a b \<le> 0 \<or> cmp b a \<le> 0) \<and>
      (\<forall>a b c. cmp a b \<le> 0 \<and> cmp b c \<le> 0 \<longrightarrow> cmp a c \<le> 0))"

text \<open>A comparison of strings by character codes, as an instance of the collation.\<close>

fun compare_codes :: "string \<Rightarrow> string \<Rightarrow> int" where
  "compare_codes [] [] = 0"
| "compare_codes [] (y # ys) = - 1"
| "compare_codes (x # xs) [] = 1"
| "compare_codes (x # xs) (y # ys) =
     (if (of_char x :: nat) < of_char y then - 1
      else if (of_char y :: nat) < of_char x then 1
      else compare_codes xs ys)"

section \<open>TreeBuilder\<close>

text \<open>
  The connectors of the tree view are the box-drawing characters U+2514, U+251C, U+2502
  and U+2500; the model writes them in UTF-8.
\<close>

definition box_up_right :: string where
  "box_up_right = [CHR 0xE2, CHR 0x94, CHR 0x94]"

definition box_vert_right :: string where
  "box_vert_right = [CHR 0xE2, CHR 0x94, CHR 0x9C]"

definition box_vert :: string where
  "box_vert = [CHR 0xE2, CHR 0x94, CHR 0x82]"

definition box_horiz :: string where
  "box_horiz = [CHR 0xE2, CHR 0x94, CHR 0x80]"

definition connector_of :: "bool \<Rightarrow> string" where
  "connector_of isLast =
     (if isLast then box_up_right @ box_horiz @ box_horiz @ '' ''
      else box_vert_right @ box_horiz @ box_horiz @ '' '')"

definition childPrefix_of :: "bool \<Rightarrow> string" where
  "childPrefix_of isLast = (if isLast then ''    '' else box_vert @ ''   '')"

text \<open>
  The entries of one level as the tree view lists them: sorted with directories first
  and by name within each kind, then without the hidden entries and \<open>node_modules\<close>.
\<close>

definition tree_entries :: "(string \<Rightarrow> string \<Rightarrow> int) \<Rightarrow> dirent list \<Rightarrow> dirent list" where
  "tree_entries lc raw =
     filter (\<lambda>e. \<not> startsWith (fst e) ''.'' \<and> fst e \<noteq> ''node_modules'')
       (sort_cmp (dirent_compare lc) raw)"

text \<open>
  \<open>buildTree\<close>. The directory at \<^verbatim>\<open>dirPath\<close> is handed over as the subtree found
  there, and the read of \<^verbatim>\<open>path.join(dirPath, entry.name)\<close> is the read of the entry's
  subtree; the parameter \<^verbatim>\<open>rootPath\<close> is not used by the source, and
  \<^verbatim>\<open>prefix\<close> is written \<open>pfx\<close>.
\<close>

function buildTree ::
  "(string \<Rightarrow> string \<Rightarrow> int) \<Rightarrow> node \<Rightarrow> nat \<Rightarrow> nat \<Rightarrow> string \<Rightarrow> string list" where
  "buildTree lc dir currentDepth maxDepth pfx =
     (if currentDepth > maxDepth then []
      else case readdirSync dir of
        None \<Rightarrow> [pfx @ ''[Permission denied]'']
      | Some raw \<Rightarrow>
          (let entries = tree_entries lc raw
           in concat (map (\<lambda>(index, entry).
                let isLast = (index = length entries - 1);
                    connector = connector_of isLast;
                    childPrefix = childPrefix_of isLast
                in if isDirectory entry then
                     (pfx @ connector @ fst entry @ ''/'') #
                     (if currentDepth < maxDepth
                      then buildTree lc (snd entry) (currentDepth + 1) maxDepth (pfx @ childPrefix)
                      else [])
                   else [pfx @ connector @ fst entry])
              (enumerate 0 entries))))"
  by pat_completeness auto
termination
  by (relation "measure (\<lambda>(lc, dir, currentDepth, maxDepth, pfx). maxDepth - currentDepth)") auto

text \<open>
  The same walk with every line tagged by the depth of the call that writes it: the
  children of the starting directory have depth \<open>currentDepth\<close>, their children the
  next depth, and the placeholder of an unreadable directory the depth of the entries it
  stands for.
\<close>

function tree_lines ::
  "(string \<Rightarrow> string \<Rightarrow> int) \<Rightarrow> node \<Rightarrow> nat \<Rightarrow> nat \<Rightarrow> string \<Rightarrow> (nat \<times> string) list" where
  "tree_lines lc dir currentDepth maxDepth pfx =
     (if currentDepth > maxDepth then []
      else case readdirSync dir of
        None \<Rightarrow> [(currentDepth, pfx @ ''[Permission denied]'')]
      | Some raw \<Rightarrow>
          (let entries = tree_entries lc raw
           in concat (map (\<lambda>(index, entry).
                let isLast = (index = length entries - 1);
                    connector = connector_of isLast;
                    childPrefix = childPrefix_of isLast
                in if isDirectory entry then
                     (currentDepth, pfx @ connector @ fst entry @ ''/'') #
                     (if currentDepth < maxDepth
                      then tree_lines lc (snd entry) (currentDepth + 1) maxDepth (pfx @ childPrefix)
                      else [])
                   else [(currentDepth, pfx @ connector @ fst entry)])
              (enumerate 0 entries))))"
  by pat_completeness auto
termination
  by (relation "measure (\<lambda>(lc, dir, currentDepth, maxDepth, pfx). maxDepth - currentDepth)") auto

text \<open>The line of one entry of a level, as \<open>buildTree\<close> writes it.\<close>

definition entry_line :: "string \<Rightarrow> nat \<Rightarrow> nat \<times> dirent \<Rightarrow> string" where
  "entry_line pfx n ie =
     pfx @ connector_of (fst ie = n - 1) @ fst (snd ie) @ (if isDirectory (snd ie) then ''/'' else [])"

text \<open>
  The lines of one level alone: one line for each listed entry of the directory, or the
  placeholder when the directory cannot be read.
\<close>

definition level_lines :: "(string \<Rightarrow> string \<Rightarrow> int) \<Rightarrow> node \<Rightarrow> string \<Rightarrow> string list" where
  "level_lines lc dir pfx =
     (case readdirSync dir of
        None \<Rightarrow> [pfx @ ''[Permission denied]'']
      | Some raw \<Rightarrow>
          map (entry_line pfx (length (tree_entries lc raw))) (enumerate 0 (tree_entries lc raw)))"

section \<open>FileFinder\<close>

text \<open>
  \<open>findFilesRecursive\<close> appends to \<^verbatim>\<open>results\<close> in place; the model returns the
  list. The loop over the entries is \<open>findFiles_loop\<close>: its first test is the
  \<^verbatim>\<open>break\<close>, its second the \<^verbatim>\<open>continue\<close>. \<open>pattern\<close> is the source text of
  the compiled expression. \<open>cwd\<close> is the working directory that \<^verbatim>\<open>path.relative\<close>
  resolves against.
\<close>

function findFilesRecursive ::
    "string \<Rightarrow> node \<Rightarrow> string \<Rightarrow> string \<Rightarrow> string list \<Rightarrow> string \<Rightarrow> nat \<Rightarrow> string list"
  and findFiles_loop ::
    "string \<Rightarrow> dirent list \<Rightarrow> string \<Rightarrow> string \<Rightarrow> string list \<Rightarrow> string \<Rightarrow> nat \<Rightarrow> string list"
  where
  "findFilesRecursive cwd dir dirPath pattern results rootPath maxResults =
     (if length results \<ge> maxResults then results
      else case readdirSync dir of
        None \<Rightarrow> results
      | Some entries \<Rightarrow> findFiles_loop cwd entries dirPath pattern results rootPath maxResults)"
| "findFiles_loop cwd [] dirPath pattern results rootPath maxResults = results"
| "findFiles_loop cwd (entry # rest) dirPath pattern results rootPath maxResults =
     (if length results \<ge> maxResults then results
      else if startsWith (fst entry) ''.'' \<or> fst entry = ''node_modules''
        then findFiles_loop cwd rest dirPath pattern results rootPath maxResults
      else
        (let fullPath = path_join [dirPath, fst entry];
             relativePath = path_relative cwd rootPath fullPath
         in if isDirectory entry then
              findFiles_loop cwd rest dirPath pattern
                (findFilesRecursive cwd (snd entry) fullPath pattern results rootPath maxResults)
                rootPath maxResults
            else if regex_test pattern (fst entry) then
              findFiles_loop cwd rest dirPath pattern (results @ [relativePath]) rootPath maxResults
            else findFiles_loop cwd rest dirPath pattern results rootPath maxResults))"
  by pat_completeness auto
termination
  by (relation "measure (\<lambda>x. case x of
          Inl (cwd, dir, r) \<Rightarrow> 2 * size dir + 1
        | Inr (cwd, entries, r) \<Rightarrow> 2 * size_list (size_prod (\<lambda>n. 0) size) entries)")
    (auto elim!: readdirSync.elims)

text \<open>
  The complete walk, without a bound. \<open>candidates\<close> lists every entry that
  \<open>findFilesRecursive\<close> tests against the pattern, with its full path: the entries that
  are not directories, not hidden and not \<open>node_modules\<close>, in directories reached through
  such names, each directory's entries taken in the order of the read and a
  subdirectory's entries standing where the subdirectory stands. \<open>walk\<close> gives the
  relative paths of the candidates that the pattern accepts.
\<close>

fun candidates :: "node \<Rightarrow> string \<Rightarrow> (string \<times> dirent) list" where
  "candidates (Dir entries) dirPath =
     concat (map (\<lambda>entry.
        if startsWith (fst entry) ''.'' \<or> fst entry = ''node_modules'' then []
        else if isDirectory entry
          then candidates (snd entry) (path_join [dirPath, fst entry])
        else [(path_join [dirPath, fst entry], entry)]) entries)"
| "candidates n dirPath = []"

definition walk :: "string \<Rightarrow> node \<Rightarrow> string \<Rightarrow> string \<Rightarrow> string \<Rightarrow> string list" where
  "walk cwd dir dirPath pattern rootPath =
     map (\<lambda>c. path_relative cwd rootPath (fst c))
       (filter (\<lambda>c. regex_test pattern (fst (snd c))) (candidates dir dirPath))"

text \<open>
  The tree with every directory's entries in the order of the tree view: directories
  first, each kind by name.
\<close>

fun sort_tree :: "(string \<Rightarrow> string \<Rightarrow> int) \<Rightarrow> node \<Rightarrow> node" where
  "sort_tree lc (Dir entries) =
     Dir (sort_cmp (dirent_compare lc) (map (\<lambda>e. (fst e, sort_tree lc (snd e))) entries))"
| "sort_tree lc n = n"

section \<open>Example trees\<close>

text \<open>
  A repository whose root directory is read in the order of the names: \<open>.git\<close>,
  \<open>notes.txt\<close>, \<open>src\<close>.
\<close>

definition example_tree :: node where
  "example_tree =
     Dir [(''.git'', Dir [(''HEAD'', File ''z'')]),
          (''notes.txt'', File (''one'' @ [CHR 0x0A] @ ''two'' @ [CHR 0x0A] @ ''three'')),
          (''src'', Dir [(''main.txt'', File ''y'')])]"

section \<open>The node's operations\<close>

subsection \<open>Results, parameters and the host\<close>

text \<open>
  A result is a JavaScript object, modelled as the list of its properties in the order
  of their insertion.
\<close>

datatype json =
    JString string
  | JNumber int
  | JBool bool
  | JUndefined
  | JArray "json list"
  | JObject "(string \<times> json) list"

type_synonym data_object = "(string \<times> json) list"

text \<open>
  The parameters of one input item, as \<^verbatim>\<open>getNodeParameter\<close> returns them, with the
  declared defaults already in place.
\<close>

record params =
  p_rootPath :: string
  p_operation :: string
  p_path :: string
  p_maxLines :: int
  p_lineOffset :: int
  p_searchPattern :: string
  p_filePattern :: string
  p_caseInsensitive :: bool
  p_contextLines :: int
  p_namePattern :: string
  p_maxDepth :: int

text \<open>
  What \<^verbatim>\<open>fs.statSync\<close> reports beyond the kind of the entry, and what a call of
  \<^verbatim>\<open>execSync\<close> does: it returns the output of the command or throws an error object
  that may carry an exit status and the captured output.
\<close>

record meta =
  m_size :: nat
  m_birthtime :: string
  m_mtime :: string
  m_atime :: string
  m_mode :: nat

datatype exec_result = Returned string | Threw "int option" "string option"

text \<open>
  The host: the working directory of the process, the file system below \<open>/\<close>, the
  metadata of each path, the collation, and the behaviour of the external command.
\<close>

record host =
  h_cwd :: string
  h_fs :: node
  h_meta :: "string \<Rightarrow> meta"
  h_localeCompare :: "string \<Rightarrow> string \<Rightarrow> int"
  h_execSync :: "string \<Rightarrow> exec_result"

fun lookup :: "node \<Rightarrow> string list \<Rightarrow> node option" where
  "lookup n [] = Some n"
| "lookup (Dir es) (s # ss) = (case map_of es s of None \<Rightarrow> None | Some c \<Rightarrow> lookup c ss)"
| "lookup n (s # ss) = None"

text \<open>
  \<open>getStats\<close> is \<^verbatim>\<open>fs.statSync\<close> with its exception turned into \<open>None\<close>. The call
  follows symbolic links; the links of the model are dangling, so the call fails on
  them, and a link that leads to a file or a directory is not in the model. A regular
  file of the model can always be read.
\<close>

record stats =
  st_isFile :: bool
  st_isDirectory :: bool
  st_isSymbolicLink :: bool
  st_meta :: meta

definition getStats :: "host \<Rightarrow> string \<Rightarrow> stats option" where
  "getStats h filePath =
     (case lookup (h_fs h) (segments filePath) of
        None \<Rightarrow> None
      | Some Symlink \<Rightarrow> None
      | Some n \<Rightarrow>
          Some \<lparr> st_isFile = (case n of File c \<Rightarrow> True | _ \<Rightarrow> False),
                 st_isDirectory = isDirectoryNode n,
                 st_isSymbolicLink = False,
                 st_meta = h_meta h filePath \<rparr>)"

text \<open>
  The subtree that a read of the directory at a path sees; a path that does not exist
  reads like a directory that cannot be read: \<^verbatim>\<open>readdirSync\<close> throws.
\<close>

definition node_at :: "host \<Rightarrow> string \<Rightarrow> node" where
  "node_at h p = (case lookup (h_fs h) (segments p) of None \<Rightarrow> Unreadable | Some n \<Rightarrow> n)"

definition readFileSync :: "host \<Rightarrow> string \<Rightarrow> string option" where
  "readFileSync h p = (case lookup (h_fs h) (segments p) of Some (File c) \<Rightarrow> Some c | _ \<Rightarrow> None)"

subsection \<open>formatSize\<close>

fun show_nat :: "nat \<Rightarrow> string" where
  "show_nat n =
     (if n < 10 then [char_of (48 + n)] else show_nat (n div 10) @ [char_of (48 + n mod 10)])"

text \<open>
  The loop of \<open>formatSize\<close> divides \<^verbatim>\<open>size\<close> by 1024, which is exact in floating
  point for the sizes of files: after \<open>unitIndex\<close> rounds \<^verbatim>\<open>size\<close> is
  \<open>bytes / 1024 ^ unitIndex\<close>. \<^verbatim>\<open>toFixed(1)\<close> rounds the tenths to the nearest, a
  tie upwards.
\<close>

function formatSize_loop :: "nat \<Rightarrow> nat \<Rightarrow> nat" where
  "formatSize_loop bytes unitIndex =
     (if bytes \<ge> 1024 * 1024 ^ unitIndex \<and> unitIndex < 3
      then formatSize_loop bytes (unitIndex + 1) else unitIndex)"
  by pat_completeness auto
termination
  by (relation "measure (\<lambda>(bytes, unitIndex). 3 - unitIndex)") auto

definition formatSize :: "nat \<Rightarrow> string" where
  "formatSize bytes =
     (let units = [''B'', ''KB'', ''MB'', ''GB''];
          unitIndex = formatSize_loop bytes 0
      in (if unitIndex = 0 then show_nat bytes
          else (let tenths = (20 * bytes + 1024 ^ unitIndex) div (2 * 1024 ^ unitIndex)
                in show_nat (tenths div 10) @ ''.'' @ show_nat (tenths mod 10)))
         @ '' '' @ units ! unitIndex)"

subsection \<open>listDirectory\<close>

record file_info =
  fi_name :: string
  fi_type :: string
  fi_size :: "(string \<times> nat) option"

definition entry_info :: "host \<Rightarrow> string \<Rightarrow> dirent \<Rightarrow> file_info" where
  "entry_info h fullPath entry =
     (let entryPath = path_join [fullPath, fst entry];
          stats = getStats h entryPath;
          type = (if isDirectory entry then ''directory''
                  else if isFile entry then ''file''
                  else if isSymbolicLink entry then ''symlink''
                  else ''other'')
      in \<lparr> fi_name = fst entry, fi_type = type,
           fi_size = (case stats of
                        None \<Rightarrow> None
                      | Some st \<Rightarrow>
                          if isFile entry
                          then Some (formatSize (m_size (st_meta st)), m_size (st_meta st))
                          else None) \<rparr>)"

definition info_compare :: "(string \<Rightarrow> string \<Rightarrow> int) \<Rightarrow> file_info \<Rightarrow> file_info \<Rightarrow> int" where
  "info_compare lc a b =
     (if fi_type a = ''directory'' \<and> fi_type b \<noteq> ''directory'' then - 1
      else if fi_type a \<noteq> ''directory'' \<and> fi_type b = ''directory'' then 1
      else lc (fi_name a) (fi_name b))"

definition info_json :: "file_info \<Rightarrow> json" where
  "info_json f =
     JObject ([(''name'', JString (fi_name f)), (''type'', JString (fi_type f))] @
       (case fi_size f of
          None \<Rightarrow> []
        | Some (s, b) \<Rightarrow> [(''size'', JString s), (''sizeBytes'', JNumber (int b))]))"

text \<open>Reading a property of a returned object.\<close>

definition json_field :: "string \<Rightarrow> json \<Rightarrow> json option" where
  "json_field k j = (case j of JObject props \<Rightarrow> map_of props k | _ \<Rightarrow> None)"

definition or_dot :: "string \<Rightarrow> string" where
  "or_dot targetPath = (if targetPath = [] then ''.'' else targetPath)"

text \<open>
  Each operation is a function of the host, the parameters and the resolved root. The
  read of the directory in \<open>listDirectory\<close> is not guarded: where it throws, the
  operation fails with the error of the file system.
\<close>

datatype failure =
    Raised error
  | SystemError string
  | TypeError string

definition op_listDirectory :: "host \<Rightarrow> params \<Rightarrow> string \<Rightarrow> failure + data_object" where
  "op_listDirectory h p resolvedRoot =
     (let targetPath = p_path p in
      case validatePath (h_cwd h) resolvedRoot (or_dot targetPath) of
        Inl e \<Rightarrow> Inl (Raised e)
      | Inr fullPath \<Rightarrow>
          (case getStats h fullPath of
             None \<Rightarrow>
               Inr [(''operation'', JString ''listDirectory''),
                    (''path'', JString (or_dot targetPath)),
                    (''found'', JBool False),
                    (''message'', JString (''Directory not found: '' @ or_dot targetPath))]
           | Some dirStats \<Rightarrow>
               if \<not> st_isDirectory dirStats then
                 Inr [(''operation'', JString ''listDirectory''),
                      (''path'', JString (or_dot targetPath)),
                      (''found'', JBool False),
                      (''isFile'', JBool (st_isFile dirStats)),
                      (''message'', JString (''Path exists but is not a directory: '' @ targetPath))]
               else
                 (case readdirSync (node_at h fullPath) of
                    None \<Rightarrow> Inl (SystemError fullPath)
                  | Some entries \<Rightarrow>
                      (let files = sort_cmp (info_compare (h_localeCompare h))
                                     (map (entry_info h fullPath) entries)
                       in Inr [(''operation'', JString ''listDirectory''),
                               (''path'', JString (or_dot targetPath)),
                               (''found'', JBool True),
                               (''totalItems'', JNumber (int (length files))),
                               (''directories'', JNumber (int (length
                                  (filter (\<lambda>f. fi_type f = ''directory'') files)))),
                               (''files'', JNumber (int (length
                                  (filter (\<lambda>f. fi_type f = ''file'') files)))),
                               (''entries'', JArray (map info_json files))]))))"

subsection \<open>readFile\<close>

definition op_readFile :: "host \<Rightarrow> params \<Rightarrow> string \<Rightarrow> failure + data_object" where
  "op_readFile h p resolvedRoot =
     (let targetPath = p_path p; maxLines = p_maxLines p; lineOffset = p_lineOffset p in
      if targetPath = [] then
        Inr [(''operation'', JString ''readFile''),
             (''path'', JString []),
             (''found'', JBool False),
             (''message'', JString ''Path is required for readFile operation'')]
      else
        case validatePath (h_cwd h) resolvedRoot targetPath of
          Inl e \<Rightarrow> Inl (Raised e)
        | Inr fullPath \<Rightarrow>
            (case getStats h fullPath of
               None \<Rightarrow>
                 Inr [(''operation'', JString ''readFile''),
                      (''path'', JString targetPath),
                      (''found'', JBool False),
                      (''message'', JString (''File not found: '' @ targetPath))]
             | Some stats \<Rightarrow>
                 if \<not> st_isFile stats then
                   Inr [(''operation'', JString ''readFile''),
                        (''path'', JString targetPath),
                        (''found'', JBool False),
                        (''isDirectory'', JBool (st_isDirectory stats)),
                        (''message'', JString (''Path exists but is not a file: '' @ targetPath))]
                 else
                   (case readFileSync h fullPath of
                      None \<Rightarrow> Inl (SystemError fullPath)
                    | Some content \<Rightarrow>
                        (let lines0 = split_on CHR 0x0A content;
                             totalLines = length lines0;
                             lines1 = (if lineOffset > 0 then drop (nat lineOffset) lines0 else lines0);
                             lines = (if maxLines > 0 then take (nat maxLines) lines1 else lines1);
                             numberedLines =
                               map (\<lambda>(idx, line).
                                      JObject [(''lineNumber'', JNumber (lineOffset + int idx + 1)),
                                               (''content'', JString line)])
                                 (enumerate 0 lines)
                         in Inr [(''operation'', JString ''readFile''),
                                 (''path'', JString targetPath),
                                 (''found'', JBool True),
                                 (''totalLines'', JNumber (int totalLines)),
                                 (''linesReturned'', JNumber (int (length lines))),
                                 (''lineOffset'', JNumber lineOffset),
                                 (''size'', JString (formatSize (m_size (st_meta stats)))),
                                 (''sizeBytes'', JNumber (int (m_size (st_meta stats)))),
                                 (''content'', JString (join [CHR 0x0A] lines)),
                                 (''lines'', JArray numberedLines)]))))"

subsection \<open>grep\<close>

text \<open>
  The command line that the source hands to \<^verbatim>\<open>execSync\<close>. What the command does
  is the host's \<open>h_execSync\<close>.
\<close>

definition escape_quotes :: "string \<Rightarrow> string" where
  "escape_quotes s = concat (map (\<lambda>c. if c = CHR 0x22 then [backslash, CHR 0x22] else [c]) s)"

definition grep_command :: "params \<Rightarrow> string \<Rightarrow> string" where
  "grep_command p fullPath =
     ''grep -rn'' @
     (if p_caseInsensitive p then '' -i'' else []) @
     (if p_contextLines p > 0 then '' -C '' @ show_nat (nat (p_contextLines p)) else []) @
     (if p_filePattern p \<noteq> [] \<and> p_filePattern p \<noteq> ''*''
      then '' --include=\"'' @ p_filePattern p @ ''\"'' else []) @
     '' --exclude-dir=node_modules --exclude-dir=.git --exclude-dir=dist --exclude-dir=build'' @
     '' -E \"'' @ escape_quotes (p_searchPattern p) @ ''\" \"'' @ fullPath @ ''\"''"

text \<open>
  The \<^verbatim>\<open>catch\<close> of the call: an exit status of 1 means no match; any other error
  that carries captured output yields that output; every other error yields nothing.
  No error leaves the block.
\<close>

definition grep_output :: "exec_result \<Rightarrow> string" where
  "grep_output r =
     (case r of
        Returned out \<Rightarrow> out
      | Threw status out \<Rightarrow>
          if status = Some 1 then []
          else (case out of None \<Rightarrow> [] | Some s \<Rightarrow> s))"

text \<open>
  One line of output is matched against \<^verbatim>\<open>^(.+?):(\d+):(.*)$\<close> and, with \<open>-\<close> for
  \<open>:\<close>, against the expression for context lines. \<open>match_line c pre rest\<close> tries the
  shortest file name first: \<open>pre\<close> is the part of the line already given to the first
  group. \<open>parseInt\<close> gives the exact value of the digits, which is that of the source
  below \<open>2 ^ 53\<close>.
\<close>

definition is_digit :: "char \<Rightarrow> bool" where
  "is_digit c = (c \<in> set ''0123456789'')"

definition is_space :: "char \<Rightarrow> bool" where
  "is_space c = (c \<in> set [CHR 0x09, CHR 0x0A, CHR 0x0B, CHR 0x0C, CHR 0x0D, CHR 0x20])"

definition parseInt :: "string \<Rightarrow> int" where
  "parseInt ds = int (foldl (\<lambda>n c. 10 * n + (of_char c - 48)) 0 ds)"

definition match_tail :: "char \<Rightarrow> string \<Rightarrow> (string \<times> string) option" where
  "match_tail c xs =
     (let ds = takeWhile is_digit xs; rest = dropWhile is_digit xs
      in if ds = [] then None
         else (case rest of
                 [] \<Rightarrow> None
               | r # content \<Rightarrow>
                   if r = c \<and> list_all (\<lambda>x. \<not> line_terminator x) content
                   then Some (ds, content) else None))"

fun match_line :: "char \<Rightarrow> string \<Rightarrow> string \<Rightarrow> (string \<times> string \<times> string) option" where
  "match_line c pre [] = None"
| "match_line c pre (x # xs) =
     (case (if pre \<noteq> [] \<and> x = c then match_tail c xs else None) of
        Some (ds, content) \<Rightarrow> Some (pre, ds, content)
      | None \<Rightarrow> if line_terminator x then None else match_line c (pre @ [x]) xs)"

record grep_match =
  gm_file :: string
  gm_lineNumber :: int
  gm_content :: string
  gm_isContext :: bool

definition parse_grep_line :: "host \<Rightarrow> string \<Rightarrow> string \<Rightarrow> grep_match list" where
  "parse_grep_line h resolvedRoot line =
     (case match_line CHR '':'' [] line of
        Some (f, n, c) \<Rightarrow>
          [\<lparr> gm_file = path_relative (h_cwd h) resolvedRoot f, gm_lineNumber = parseInt n,
              gm_content = c, gm_isContext = False \<rparr>]
      | None \<Rightarrow>
          (case match_line CHR ''-'' [] line of
             Some (f, n, c) \<Rightarrow>
               [\<lparr> gm_file = path_relative (h_cwd h) resolvedRoot f, gm_lineNumber = parseInt n,
                   gm_content = c, gm_isContext = True \<rparr>]
           | None \<Rightarrow> []))"

definition parse_grep_output :: "host \<Rightarrow> string \<Rightarrow> string \<Rightarrow> grep_match list" where
  "parse_grep_output h resolvedRoot grepOutput =
     (if grepOutput = [] then []
      else concat (map (parse_grep_line h resolvedRoot)
             (filter (\<lambda>l. list_ex (\<lambda>c. \<not> is_space c) l) (split_on CHR 0x0A grepOutput))))"

text \<open>
  The grouping by file uses a plain object as its table. A file whose relative path is
  the name of a property that every object inherits is found in the table without ever
  having been entered, with a value that has no \<^verbatim>\<open>push\<close>: the call throws.
  The table is modelled as the list of its keys in the order of their first use.
\<close>

definition inherited_keys :: "string list" where
  "inherited_keys =
     [''constructor'', ''__defineGetter__'', ''__defineSetter__'', ''hasOwnProperty'',
      ''__lookupGetter__'', ''__lookupSetter__'', ''isPrototypeOf'', ''propertyIsEnumerable'',
      ''toString'', ''valueOf'', ''__proto__'', ''toLocaleString'']"

definition by_file_entry :: "grep_match \<Rightarrow> json" where
  "by_file_entry m =
     JObject [(''lineNumber'', JNumber (gm_lineNumber m)),
              (''content'', JString (gm_content m)),
              (''isContext'', if gm_isContext m then JBool True else JUndefined)]"

fun group_by_file ::
  "grep_match list \<Rightarrow> (string \<times> json list) list \<Rightarrow> failure + (string \<times> json list) list" where
  "group_by_file [] byFile = Inr byFile"
| "group_by_file (m # ms) byFile =
     (if gm_file m \<in> set inherited_keys
      then Inl (TypeError ''byFile[match.file].push is not a function'')
      else (case map_of byFile (gm_file m) of
              None \<Rightarrow> group_by_file ms (byFile @ [(gm_file m, [by_file_entry m])])
            | Some es \<Rightarrow>
                group_by_file ms
                  (map (\<lambda>(k, v). if k = gm_file m then (k, v @ [by_file_entry m]) else (k, v)) byFile)))"

definition match_json :: "grep_match \<Rightarrow> json" where
  "match_json m =
     JObject ([(''file'', JString (gm_file m)),
               (''lineNumber'', JNumber (gm_lineNumber m)),
               (''content'', JString (gm_content m))] @
              (if gm_isContext m then [(''isContext'', JBool True)] else []))"

definition op_grep :: "host \<Rightarrow> params \<Rightarrow> string \<Rightarrow> failure + data_object" where
  "op_grep h p resolvedRoot =
     (let searchPattern = p_searchPattern p; targetPath = p_path p in
      if searchPattern = [] then
        Inl (Raised (NodeOperationError ''searchPattern is required for grep operation''))
      else
        case validatePath (h_cwd h) resolvedRoot (or_dot targetPath) of
          Inl e \<Rightarrow> Inl (Raised e)
        | Inr fullPath \<Rightarrow>
            (let grepOutput = grep_output (h_execSync h (grep_command p fullPath));
                 matches = parse_grep_output h resolvedRoot grepOutput
             in case group_by_file matches [] of
                  Inl e \<Rightarrow> Inl e
                | Inr byFile \<Rightarrow>
                    Inr [(''operation'', JString ''grep''),
                         (''pattern'', JString searchPattern),
                         (''path'', JString (or_dot targetPath)),
                         (''filePattern'', JString (p_filePattern p)),
                         (''caseInsensitive'', JBool (p_caseInsensitive p)),
                         (''totalMatches'', JNumber (int (length
                            (filter (\<lambda>m. \<not> gm_isContext m) matches)))),
                         (''filesWithMatches'', JNumber (int (length byFile))),
                         (''matchesByFile'', JObject (map (\<lambda>(k, v). (k, JArray v)) byFile)),
                         (''matches'', JArray (map match_json matches))]))"

subsection \<open>findFiles, fileInfo and tree\<close>

definition op_findFiles :: "host \<Rightarrow> params \<Rightarrow> string \<Rightarrow> failure + data_object" where
  "op_findFiles h p resolvedRoot =
     (let namePattern = p_namePattern p; targetPath = p_path p in
      case validatePath (h_cwd h) resolvedRoot (or_dot targetPath) of
        Inl e \<Rightarrow> Inl (Raised e)
      | Inr fullPath \<Rightarrow>
          (let regex = globToRegex namePattern;
               foundFiles = findFilesRecursive (h_cwd h) (node_at h fullPath) fullPath regex []
                              resolvedRoot 1000
           in Inr [(''operation'', JString ''findFiles''),
                   (''pattern'', JString namePattern),
                   (''path'', JString (or_dot targetPath)),
                   (''totalFound'', JNumber (int (length foundFiles))),
                   (''files'', JArray (map JString foundFiles))]))"

fun show_octal :: "nat \<Rightarrow> string" where
  "show_octal n =
     (if n < 8 then [char_of (48 + n)] else show_octal (n div 8) @ [char_of (48 + n mod 8)])"

definition op_fileInfo :: "host \<Rightarrow> params \<Rightarrow> string \<Rightarrow> failure + data_object" where
  "op_fileInfo h p resolvedRoot =
     (let targetPath = p_path p in
      if targetPath = [] then
        Inr [(''operation'', JString ''fileInfo''),
             (''path'', JString []),
             (''exists'', JBool False),
             (''message'', JString ''Path is required for fileInfo operation'')]
      else
        case validatePath (h_cwd h) resolvedRoot targetPath of
          Inl e \<Rightarrow> Inl (Raised e)
        | Inr fullPath \<Rightarrow>
            (case getStats h fullPath of
               None \<Rightarrow>
                 Inr [(''operation'', JString ''fileInfo''),
                      (''path'', JString targetPath),
                      (''exists'', JBool False),
                      (''message'', JString (''Path not found: '' @ targetPath))]
             | Some stats \<Rightarrow>
                 Inr [(''operation'', JString ''fileInfo''),
                      (''path'', JString targetPath),
                      (''exists'', JBool True),
                      (''isFile'', JBool (st_isFile stats)),
                      (''isDirectory'', JBool (st_isDirectory stats)),
                      (''isSymbolicLink'', JBool (st_isSymbolicLink stats)),
                      (''size'', JString (formatSize (m_size (st_meta stats)))),
                      (''sizeBytes'', JNumber (int (m_size (st_meta stats)))),
                      (''created'', JString (m_birthtime (st_meta stats))),
                      (''modified'', JString (m_mtime (st_meta stats))),
                      (''accessed'', JString (m_atime (st_meta stats))),
                      (''mode'', JString (show_octal (m_mode (st_meta stats))))]))"

definition basename :: "string \<Rightarrow> string" where
  "basename p = (case segments p of [] \<Rightarrow> [] | ss \<Rightarrow> last ss)"

definition op_tree :: "host \<Rightarrow> params \<Rightarrow> string \<Rightarrow> failure + data_object" where
  "op_tree h p resolvedRoot =
     (let targetPath = p_path p;
          maxDepth = max 1 (min 10 (p_maxDepth p)) in
      case validatePath (h_cwd h) resolvedRoot (or_dot targetPath) of
        Inl e \<Rightarrow> Inl (Raised e)
      | Inr fullPath \<Rightarrow>
          (case getStats h fullPath of
             None \<Rightarrow>
               Inr [(''operation'', JString ''tree''),
                    (''path'', JString (or_dot targetPath)),
                    (''found'', JBool False),
                    (''message'', JString (''Directory not found: '' @ or_dot targetPath))]
           | Some stats \<Rightarrow>
               if \<not> st_isDirectory stats then
                 Inr [(''operation'', JString ''tree''),
                      (''path'', JString (or_dot targetPath)),
                      (''found'', JBool False),
                      (''isFile'', JBool (st_isFile stats)),
                      (''message'', JString (''Path exists but is not a directory: '' @ targetPath))]
               else
                 (let treeLines = buildTree (h_localeCompare h) (node_at h fullPath) 1 (nat maxDepth) [];
                      rootName = (if targetPath = [] then basename resolvedRoot else targetPath)
                  in Inr [(''operation'', JString ''tree''),
                          (''path'', JString (or_dot targetPath)),
                          (''found'', JBool True),
                          (''maxDepth'', JNumber maxDepth),
                          (''tree'', JString (rootName @ ''/'' @ [CHR 0x0A] @ join [CHR 0x0A] treeLines)),
                          (''treeLines'', JArray (map JString ((rootName @ ''/'') # treeLines)))])))"

subsection \<open>execute\<close>

text \<open>
  The body of the \<^verbatim>\<open>try\<close> block for one input item, and the loop over the items
  around it. With \<^verbatim>\<open>continueOnFail\<close> an error becomes the result of its item;
  without it the first error ends the call.
\<close>

definition run_operation :: "host \<Rightarrow> params \<Rightarrow> failure + data_object" where
  "run_operation h p =
     (let rootPath = p_rootPath p; operation = p_operation p in
      if rootPath = [] then Inl (Raised (NodeOperationError ''Root path is required''))
      else
        (let resolvedRoot = resolve (h_cwd h) [rootPath] in
         case getStats h resolvedRoot of
           None \<Rightarrow> Inl (Raised (NodeOperationError
                     (''Root path does not exist or is not a directory: '' @ resolvedRoot)))
         | Some rootStats \<Rightarrow>
             if \<not> st_isDirectory rootStats then
               Inl (Raised (NodeOperationError
                 (''Root path does not exist or is not a directory: '' @ resolvedRoot)))
             else if operation = ''listDirectory'' then op_listDirectory h p resolvedRoot
             else if operation = ''readFile'' then op_readFile h p resolvedRoot
             else if operation = ''grep'' then op_grep h p resolvedRoot
             else if operation = ''findFiles'' then op_findFiles h p resolvedRoot
             else if operation = ''fileInfo'' then op_fileInfo h p resolvedRoot
             else if operation = ''tree'' then op_tree h p resolvedRoot
             else Inl (Raised (NodeOperationError (''Unknown operation: '' @ operation)))))"

definition failure_message :: "failure \<Rightarrow> string" where
  "failure_message f =
     (case f of
        Raised (ApplicationError m) \<Rightarrow> m
      | Raised (NodeOperationError m) \<Rightarrow> m
      | SystemError m \<Rightarrow> m
      | TypeError m \<Rightarrow> m)"

fun execute :: "host \<Rightarrow> bool \<Rightarrow> params list \<Rightarrow> error + data_object list" where
  "execute h continueOnFail [] = Inr []"
| "execute h continueOnFail (item # items) =
     (case run_operation h item of
        Inr result \<Rightarrow> map_sum id ((#) result) (execute h continueOnFail items)
      | Inl f \<Rightarrow>
          if continueOnFail
          then map_sum id ((#) [(''error'', JString (failure_message f))])
                 (execute h continueOnFail items)
          else Inl (NodeOperationError (failure_message f)))"

section \<open>An example host\<close>

definition example_meta :: meta where
  "example_meta = \<lparr> m_size = 3, m_birthtime = ''2024-01-01T00:00:00.000Z'',
     m_mtime = ''2024-01-02T00:00:00.000Z'', m_atime = ''2024-01-03T00:00:00.000Z'',
     m_mode = 420 \<rparr>"

definition example_host :: host where
  "example_host =
     \<lparr> h_cwd = ''/'',
       h_fs = Dir [(''repo'', example_tree), (''etc'', Dir [(''passwd'', File ''root'')])],
       h_meta = (\<lambda>p. example_meta),
       h_localeCompare = compare_codes,
       h_execSync = (\<lambda>cmd. Threw (Some 2) (Some [])) \<rparr>"

definition example_stats :: stats where
  "example_stats =
     \<lparr> st_isFile = False, st_isDirectory = True, st_isSymbolicLink = False,
       st_meta = example_meta \<rparr>"

definition example_params :: params where
  "example_params =
     \<lparr> p_rootPath = ''/repo'', p_operation = ''listDirectory'', p_path = [],
       p_maxLines = 0, p_lineOffset = 0, p_searchPattern = [], p_filePattern = ''*'',
       p_caseInsensitive = False, p_contextLines = 0, p_namePattern = ''*'', p_maxDepth = 3 \<rparr>"

section \<open>Path sandbox: properties\<close>

lemma startsWith_prefix: "startsWith s p = prefix p s"
  by (induction s p rule: startsWith.induct) auto

lemma split_on_not_Nil: "split_on c s \<noteq> []"
  by (induction s) (auto split: list.splits)

lemma split_on_append_sep: "split_on c (a @ c # b) = split_on c a @ split_on c b"
proof (induction a)
  case Nil
  show ?case by simp
next
  case (Cons x a)
  obtain s ss where s: "split_on c a = s # ss"
    using split_on_not_Nil [of c a] by (cases "split_on c a") auto
  show ?case using Cons s by simp
qed

lemma segments_append_sep: "segments (a @ CHR ''/'' # b) = segments a @ segments b"
  by (simp add: segments_def split_on_append_sep)

lemma prefix_sep_inside:
  assumes "prefix (r @ sep) p"
  shows "inside_root r p"
proof -
  from assms obtain b where "p = r @ CHR ''/'' # b"
    by (auto simp: prefix_def sep_def)
  then show ?thesis
    by (simp add: inside_root_def segments_append_sep)
qed

lemma split_on_no_sep: "c \<notin> set s \<Longrightarrow> split_on c s = [s]"
  by (induction s) auto

lemma split_on_elems_no_sep: "x \<in> set (split_on c s) \<Longrightarrow> c \<notin> set x"
proof (induction s arbitrary: x)
  case Nil
  then show ?case by simp
next
  case (Cons a s)
  obtain t ts where t: "split_on c s = t # ts"
    using split_on_not_Nil [of c s] by (cases "split_on c s") auto
  show ?case
  proof (cases "a = c")
    case True
    then show ?thesis using Cons by auto
  next
    case False
    then have "x = a # t \<or> x \<in> set ts" using Cons.prems t by simp
    moreover have "c \<notin> set t" "\<And>y. y \<in> set ts \<Longrightarrow> c \<notin> set y"
      using Cons.IH t by simp_all
    ultimately show ?thesis using False by auto
  qed
qed

lemma norm_step_clean:
  assumes "list_all clean stack" and "CHR ''/'' \<notin> set seg"
  shows "list_all clean (norm_step False stack seg)"
  using assms
  by (auto simp: norm_step_def clean_def list_all_iff dest: in_set_butlastD)

lemma foldl_norm_step_clean:
  "list_all clean stack \<Longrightarrow> \<forall>seg \<in> set segs. CHR ''/'' \<notin> set seg \<Longrightarrow>
   list_all clean (foldl (norm_step False) stack segs)"
  by (induction segs arbitrary: stack) (simp_all add: norm_step_clean)

lemma normalizeSegs_clean: "list_all clean (normalizeSegs False p)"
  unfolding normalizeSegs_def
  by (rule foldl_norm_step_clean) (auto dest: split_on_elems_no_sep)

lemma segments_join_clean:
  "list_all clean segs \<Longrightarrow> segments (sep @ join sep segs) = segs"
proof (induction segs)
  case Nil
  show ?case by (simp add: segments_def sep_def)
next
  case (Cons s segs)
  then have s: "s \<noteq> []" "CHR ''/'' \<notin> set s" by (simp_all add: clean_def)
  show ?case
  proof (cases segs)
    case Nil
    then show ?thesis using s
      by (simp add: segments_def sep_def split_on_no_sep)
  next
    case (Cons t ts)
    have "sep @ join sep (s # segs) = (CHR ''/'' # s) @ CHR ''/'' # join sep segs"
      using Cons by (simp add: sep_def)
    then have "segments (sep @ join sep (s # segs)) =
        segments (CHR ''/'' # s) @ segments (join sep segs)"
      by (simp only: segments_append_sep)
    moreover have "segments (CHR ''/'' # s) = [s]"
      using s by (simp add: segments_def split_on_no_sep)
    moreover have "segments (join sep segs) = segments (sep @ join sep segs)"
      by (simp add: segments_def sep_def)
    ultimately show ?thesis using Cons.IH Cons.prems by simp
  qed
qed

lemma resolve_aux_absolute:
  "isAbsolute cwd \<Longrightarrow> \<exists>rp. resolve_aux (ps @ [cwd]) acc = (rp, True)"
  by (induction ps arbitrary: acc) (auto simp: isAbsolute_def split: list.splits)

lemma resolve_normal_form:
  assumes "isAbsolute cwd"
  shows "\<exists>segs. list_all clean segs \<and> resolve cwd args = sep @ join sep segs"
proof -
  from resolve_aux_absolute [OF assms, of "rev args" "[]"]
  obtain rp where "resolve_aux (rev args @ [cwd]) [] = (rp, True)" by blast
  then have "resolve cwd args = sep @ join sep (normalizeSegs False rp)"
    by (simp add: resolve_def normalizeString_def)
  then show ?thesis using normalizeSegs_clean by blast
qed

lemma join_append:
  "r \<noteq> [] \<Longrightarrow> t \<noteq> [] \<Longrightarrow> join sep (r @ t) = join sep r @ sep @ join sep t"
proof (induction r)
  case Nil
  then show ?case by simp
next
  case (Cons a r)
  show ?case
  proof (cases r)
    case Nil
    then show ?thesis using Cons.prems by (cases t) simp_all
  next
    case (Cons b bs)
    then show ?thesis using Cons.IH Cons.prems by simp
  qed
qed

lemma validatePath_accepts_inside:
  assumes "isAbsolute cwd"
    and "resolve cwd [rootPath] \<noteq> sep"
    and "inside_root (resolve cwd [rootPath]) (resolve cwd [resolve cwd [rootPath], relativePath])"
  shows "validatePath cwd rootPath relativePath =
           Inr (resolve cwd [resolve cwd [rootPath], relativePath])"
proof -
  let ?root = "resolve cwd [rootPath]"
  let ?res = "resolve cwd [?root, relativePath]"
  from resolve_normal_form [OF assms(1)] obtain rs where
    rs: "list_all clean rs" "?root = sep @ join sep rs" by blast
  from resolve_normal_form [OF assms(1)] obtain ps where
    ps: "list_all clean ps" "?res = sep @ join sep ps" by blast
  have "rs \<noteq> []" using assms(2) rs(2) by auto
  have "segments ?root = rs" "segments ?res = ps"
    using rs ps by (simp_all add: segments_join_clean)
  then obtain t where t: "ps = rs @ t"
    using assms(3) by (auto simp: inside_root_def prefix_def)
  have "?res = ?root \<or> prefix (?root @ sep) ?res"
  proof (cases t)
    case Nil
    then show ?thesis using t rs(2) ps(2) by simp
  next
    case (Cons a as)
    then have "join sep ps = join sep rs @ sep @ join sep t"
      using t \<open>rs \<noteq> []\<close> by (simp add: join_append)
    then show ?thesis using rs(2) ps(2) by (simp add: prefix_def)
  qed
  then show ?thesis
    by (auto simp: validatePath_def Let_def startsWith_prefix)
qed

text \<open>
  Claim C1. \<open>validatePath\<close> returns the lexically resolved path exactly when it equals the
  resolved root or starts with the resolved root followed by the separator, and fails
  with the path-traversal error otherwise. In particular every input whose resolution
  does not lie under the root (its components do not extend the root's) fails with that
  error, whether it climbs with \<open>..\<close> or names an absolute path; and, for a root other
  than \<open>/\<close>, every input whose resolution lies under the root is accepted. The function
  takes no file system: the decision is made on the strings alone.
\<close>

theorem validatePath_sandbox:
  "(let resolvedRoot = resolve cwd [rootPath];
        resolved = resolve cwd [resolvedRoot, relativePath]
    in validatePath cwd rootPath relativePath =
         (if resolved = resolvedRoot \<or> prefix (resolvedRoot @ ''/'') resolved
          then Inr resolved
          else Inl (ApplicationError (traversal_message relativePath resolved resolvedRoot))) \<and>
       (\<not> inside_root resolvedRoot resolved \<longrightarrow>
          validatePath cwd rootPath relativePath =
            Inl (ApplicationError (traversal_message relativePath resolved resolvedRoot))) \<and>
       (isAbsolute cwd \<and> resolvedRoot \<noteq> ''/'' \<and> inside_root resolvedRoot resolved \<longrightarrow>
          validatePath cwd rootPath relativePath = Inr resolved) \<and>
       prefix ''Path traversal detected'' (traversal_message relativePath resolved resolvedRoot))"
proof -
  define resolvedRoot where "resolvedRoot = resolve cwd [rootPath]"
  define resolved where "resolved = resolve cwd [resolvedRoot, relativePath]"
  have code: "validatePath cwd rootPath relativePath =
         (if resolved = resolvedRoot \<or> prefix (resolvedRoot @ ''/'') resolved
          then Inr resolved
          else Inl (ApplicationError (traversal_message relativePath resolved resolvedRoot)))"
    by (auto simp: validatePath_def Let_def startsWith_prefix sep_def
        resolvedRoot_def resolved_def)
  have out: "validatePath cwd rootPath relativePath =
      Inl (ApplicationError (traversal_message relativePath resolved resolvedRoot))"
    if "\<not> inside_root resolvedRoot resolved"
  proof -
    have "resolved \<noteq> resolvedRoot"
      using that by (auto simp: inside_root_def)
    moreover have "\<not> prefix (resolvedRoot @ ''/'') resolved"
      using that prefix_sep_inside [of resolvedRoot resolved] by (auto simp: sep_def)
    ultimately show ?thesis using code by simp
  qed
  have acc: "validatePath cwd rootPath relativePath = Inr resolved"
    if "isAbsolute cwd" "resolvedRoot \<noteq> ''/''" "inside_root resolvedRoot resolved"
    using that validatePath_accepts_inside [of cwd rootPath relativePath]
    by (simp add: resolvedRoot_def resolved_def sep_def)
  have msg: "prefix ''Path traversal detected'' (traversal_message relativePath resolved resolvedRoot)"
    by (simp add: traversal_message_def)
  show ?thesis
    using code out acc msg by (simp add: Let_def resolvedRoot_def resolved_def)
qed

theorem validatePath_sandbox_witness:
  "\<not> inside_root (resolve ''/home/u'' [''/repo''])
        (resolve ''/home/u'' [resolve ''/home/u'' [''/repo''], ''src/../../etc/passwd'']) \<and>
   validatePath ''/home/u'' ''/repo'' ''src/../../etc/passwd'' =
     Inl (ApplicationError (traversal_message ''src/../../etc/passwd'' ''/etc/passwd'' ''/repo'')) \<and>
   isAbsolute ''/home/u'' \<and> resolve ''/home/u'' [''/repo''] \<noteq> ''/'' \<and>
   inside_root (resolve ''/home/u'' [''/repo''])
        (resolve ''/home/u'' [resolve ''/home/u'' [''/repo''], ''src/./index.ts'']) \<and>
   validatePath ''/home/u'' ''/repo'' ''src/./index.ts'' = Inr ''/repo/src/index.ts''"
proof -
  have r: "resolve ''/home/u'' [''/repo''] = ''/repo''"
    by code_simp
  have p: "resolve ''/home/u'' [''/repo'', ''src/../../etc/passwd''] = ''/etc/passwd''"
    by code_simp
  have q: "resolve ''/home/u'' [''/repo'', ''src/./index.ts''] = ''/repo/src/index.ts''"
    by code_simp
  have h: "\<not> inside_root ''/repo'' ''/etc/passwd''"
    by code_simp
  have i: "inside_root ''/repo'' ''/repo/src/index.ts''" "isAbsolute ''/home/u''"
    by code_simp+
  show ?thesis
    using validatePath_sandbox [of "''/home/u''" "''/repo''" "''src/../../etc/passwd''"]
      validatePath_sandbox [of "''/home/u''" "''/repo''" "''src/./index.ts''"] h i
    by (simp add: Let_def r p q)
qed

lemma validatePath_examples:
  "validatePath ''/home/u'' ''/repo'' ''src/index.ts'' = Inr ''/repo/src/index.ts''"
  "validatePath ''/home/u'' ''/repo'' ''.'' = Inr ''/repo''"
  "validatePath ''/home/u'' ''repo'' ''a/../b'' = Inr ''/home/u/repo/b''"
  "isl (validatePath ''/home/u'' ''/repo'' ''../../../etc/passwd'')"
  "isl (validatePath ''/home/u'' ''/repo'' ''/etc/passwd'')"
  "isl (validatePath ''/home/u'' ''/repo'' ''../repo2'')"
  "isl (validatePath ''/home/u'' ''/'' ''etc'')"
  by code_simp+

section \<open>GlobMatcher: properties\<close>

lemma three_passes: "replace_question (replace_star (escape_special g)) = concat (map glob_char g)"
  by (induction g)
    (auto simp: replace_question_def replace_star_def escape_special_def glob_char_def
      regex_special_def backslash_def)

lemma glob_char_not_star: "glob_char c @ rest = d # r \<Longrightarrow> d \<noteq> CHR ''*''"
  by (auto simp: glob_char_def backslash_def split: if_splits)

lemma concat_glob_char_not_star:
  "concat (map glob_char g) @ ''$'' = d # r \<Longrightarrow> d \<noteq> CHR ''*''"
  by (cases g) (auto dest: glob_char_not_star)

lemma parse_glob_chars:
  "parse_regex (concat (map glob_char g) @ ''$'') = Some (map atom_of g @ [EOL])"
proof (induction g)
  case Nil
  show ?case by (simp add: backslash_def regex_special_def)
next
  case (Cons c g)
  let ?X = "concat (map glob_char g) @ ''$''"
  have dot: "CHR ''.'' \<noteq> backslash"
    by (simp add: backslash_def)
  consider (sp) "regex_special c" | (star) "c = CHR ''*''" | (q) "c = CHR ''?''"
    | (plain) "\<not> regex_special c" "c \<noteq> CHR ''*''" "c \<noteq> CHR ''?''"
    by blast
  then show ?case
  proof cases
    case sp
    then have ne: "c \<noteq> CHR ''*''" "c \<noteq> CHR ''?''"
      by (auto simp: regex_special_def backslash_def)
    have gc: "glob_char c = [backslash, c]" and at: "atom_of c = Lit c"
      using sp ne by (simp_all add: glob_char_def atom_of_def)
    show ?thesis using sp Cons by (simp add: gc at)
  next
    case star
    have gc: "glob_char c = ''.*''" and at: "atom_of c = AnyStar"
      using star by (simp_all add: glob_char_def atom_of_def regex_special_def backslash_def)
    show ?thesis using Cons dot by (simp add: gc at)
  next
    case q
    have gc: "glob_char c = ''.''" and at: "atom_of c = AnyChar"
      using q by (simp_all add: glob_char_def atom_of_def regex_special_def backslash_def)
    obtain d r where X: "?X = d # r"
      by (cases ?X) auto
    then have d: "d \<noteq> CHR ''*''"
      by (rule concat_glob_char_not_star)
    have "parse_regex (CHR ''.'' # ?X) = map_option ((#) AnyChar) (parse_regex ?X)"
      using d dot by (simp add: X)
    then show ?thesis using Cons by (simp add: gc at)
  next
    case plain
    then have ne: "c \<noteq> backslash" "c \<noteq> CHR ''.''" "c \<noteq> CHR ''^''" "c \<noteq> CHR ''$''"
      by (auto simp: regex_special_def)
    have gc: "glob_char c = [c]" and at: "atom_of c = Lit c"
      using plain by (simp_all add: glob_char_def atom_of_def)
    show ?thesis using plain ne Cons by (simp add: gc at)
  qed
qed

lemma parse_globToRegex: "parse_regex (globToRegex g) = Some (BOL # map atom_of g @ [EOL])"
  by (simp add: globToRegex_def three_passes parse_glob_chars backslash_def)

lemma match_here_glob:
  "list_all (\<lambda>c. \<not> line_terminator c) s \<Longrightarrow>
   match_here (map atom_of g @ [EOL]) s atStart = glob_match g s"
  by (induction g s arbitrary: atStart rule: glob_match.induct)
    (auto simp: atom_of_def)

lemma search_from_BOL_later: "search_from (BOL # as) s False = False"
  by (induction s) auto

lemma regex_test_globToRegex:
  "ascii_name s \<Longrightarrow> list_all (\<lambda>c. \<not> line_terminator c) s \<Longrightarrow>
   regex_test (globToRegex g) s = glob_match g s"
  by (cases s) (simp_all add: regex_test_def parse_globToRegex match_here_glob search_from_BOL_later)

lemma glob_match_star: "glob_match ''*'' s"
  by (induction s) auto

text \<open>
  Claim C4. The compiled predicate is meant to accept exactly the names that the glob
  matches as a whole, with \<open>*\<close> standing for any characters. On ASCII names without a
  line terminator it does (\<open>regex_test_globToRegex\<close>). A name that contains a line feed is
  rejected by the pattern \<open>*\<close>, because the wildcard \<open>.\<close> of the compiled expression does
  not match a line terminator: the glob matches the name, the compiled predicate does
  not.
\<close>

theorem globToRegex_star_rejects_line_feed:
  "glob_match ''*'' [CHR ''a'', CHR 0x0A, CHR ''b''] \<and>
   \<not> regex_test (globToRegex ''*'') [CHR ''a'', CHR 0x0A, CHR ''b'']"
  by code_simp

lemma globToRegex_examples:
  "regex_test (globToRegex ''*.ts'') ''Button.ts''"
  "\<not> regex_test (globToRegex ''*.ts'') ''Button.js''"
  "regex_test (globToRegex ''?.ts'') ''a.ts''"
  "\<not> regex_test (globToRegex ''?.ts'') ''ab.ts''"
  "regex_test (globToRegex ''file.test.ts'') ''file.test.ts''"
  "\<not> regex_test (globToRegex ''file.test.ts'') ''filextest.ts''"
  "regex_test (globToRegex ''*.TS'') ''index.ts''"
  by code_simp+

section \<open>Sorting: properties\<close>

lemma consistent_total: "consistent cmp \<Longrightarrow> cmp a b \<le> 0 \<or> cmp b a \<le> 0"
  unfolding consistent_def by blast

lemma consistent_trans: "consistent cmp \<Longrightarrow> cmp a b \<le> 0 \<Longrightarrow> cmp b c \<le> 0 \<Longrightarrow> cmp a c \<le> 0"
  unfolding consistent_def by blast

lemma set_insort_cmp: "set (insort_cmp cmp x xs) = insert x (set xs)"
  by (induction xs) auto

lemma set_sort_cmp: "set (sort_cmp cmp xs) = set xs"
  by (induction xs) (auto simp: sort_cmp_def set_insort_cmp)

lemma length_insort_cmp: "length (insort_cmp cmp x xs) = Suc (length xs)"
  by (induction xs) auto

lemma length_sort_cmp: "length (sort_cmp cmp xs) = length xs"
  by (induction xs) (auto simp: sort_cmp_def length_insort_cmp)

lemma sorted_insort_cmp:
  assumes "consistent cmp" "sorted_wrt (\<lambda>a b. cmp a b \<le> 0) xs"
  shows "sorted_wrt (\<lambda>a b. cmp a b \<le> 0) (insort_cmp cmp x xs)"
  using assms(2)
proof (induction xs)
  case Nil
  show ?case by simp
next
  case (Cons y ys)
  have total: "cmp x y \<le> 0 \<or> cmp y x \<le> 0"
    using assms(1) by (rule consistent_total)
  note trans = consistent_trans [OF assms(1)]
  show ?case
  proof (cases "cmp x y \<le> 0")
    case True
    have "\<forall>z\<in>set ys. cmp x z \<le> 0"
    proof
      fix z assume "z \<in> set ys"
      then have "cmp y z \<le> 0" using Cons.prems by simp
      with True show "cmp x z \<le> 0" by (rule trans)
    qed
    then show ?thesis using True Cons.prems by simp
  next
    case False
    then have "cmp y x \<le> 0" using total by simp
    then show ?thesis using False Cons by (auto simp: set_insort_cmp)
  qed
qed

lemma sorted_sort_cmp:
  "consistent cmp \<Longrightarrow> sorted_wrt (\<lambda>a b. cmp a b \<le> 0) (sort_cmp cmp xs)"
  by (induction xs) (auto simp: sort_cmp_def sorted_insort_cmp)

lemma consistent_dirent_compare:
  assumes "consistent lc"
  shows "consistent (dirent_compare lc)"
proof -
  note total = consistent_total [OF assms]
  note trans = consistent_trans [OF assms]
  have "dirent_compare lc a b \<le> 0 \<or> dirent_compare lc b a \<le> 0" for a b
    using total [of "fst a" "fst b"] by (auto simp: dirent_compare_def)
  moreover have "dirent_compare lc a c \<le> 0"
    if "dirent_compare lc a b \<le> 0" "dirent_compare lc b c \<le> 0" for a b c
    using that trans [of "fst a" "fst b" "fst c"]
    by (auto simp: dirent_compare_def split: if_splits)
  ultimately show ?thesis unfolding consistent_def by blast
qed

lemma sorted_dirs_first:
  "sorted_wrt (\<lambda>a b. dirent_compare lc a b \<le> 0) xs \<Longrightarrow>
   xs = filter isDirectory xs @ filter (\<lambda>e. \<not> isDirectory e) xs"
proof (induction xs)
  case Nil
  show ?case by simp
next
  case (Cons x xs)
  show ?case
  proof (cases "isDirectory x")
    case True
    then show ?thesis using Cons by simp
  next
    case False
    have "\<forall>y\<in>set xs. \<not> isDirectory y"
    proof
      fix y assume "y \<in> set xs"
      then have "dirent_compare lc x y \<le> 0" using Cons.prems by simp
      then show "\<not> isDirectory y" using False by (auto simp: dirent_compare_def split: if_splits)
    qed
    then have "filter isDirectory xs = []" "filter (\<lambda>e. \<not> isDirectory e) xs = xs"
      by (simp_all add: filter_empty_conv filter_id_conv)
    then show ?thesis using False by simp
  qed
qed

lemma sorted_names_in_kind:
  assumes "sorted_wrt (\<lambda>a b. dirent_compare lc a b \<le> 0) xs"
    and "\<forall>a b. P a \<and> P b \<longrightarrow> isDirectory a = isDirectory b"
  shows "sorted_wrt (\<lambda>a b. lc (fst a) (fst b) \<le> 0) (filter P xs)"
proof -
  have "sorted_wrt (\<lambda>a b. dirent_compare lc a b \<le> 0) (filter P xs)"
    using assms(1) by (rule sorted_wrt_filter)
  then show ?thesis
  proof (rule sorted_wrt_mono_rel [rotated])
    fix a b
    assume ab: "a \<in> set (filter P xs)" "b \<in> set (filter P xs)"
      and le: "dirent_compare lc a b \<le> 0"
    from ab have "P a" "P b" by simp_all
    then have "isDirectory a = isDirectory b" using assms(2) by blast
    then show "lc (fst a) (fst b) \<le> 0"
      using le by (simp add: dirent_compare_def split: if_splits)
  qed
qed

lemma cc_total: "compare_codes a b \<le> 0 \<or> compare_codes b a \<le> 0"
  by (induction a b rule: compare_codes.induct) auto

lemma cc_Cons: "compare_codes (x # xs) (y # ys) \<le> 0 \<longleftrightarrow>
    (of_char x :: nat) < of_char y \<or> ((of_char x :: nat) = of_char y \<and> compare_codes xs ys \<le> 0)"
  by (simp del: of_char_eq_iff)

lemma cc_trans: "compare_codes a b \<le> 0 \<Longrightarrow> compare_codes b c \<le> 0 \<Longrightarrow> compare_codes a c \<le> 0"
proof (induction a arbitrary: b c)
  case Nil
  then show ?case by (cases c) simp_all
next
  case (Cons x xs)
  from Cons.prems(1) obtain y ys where b: "b = y # ys" by (cases b) auto
  from Cons.prems(2) b obtain z zs where c: "c = z # zs" by (cases c) auto
  from Cons.prems b c have
    1: "(of_char x :: nat) < of_char y \<or> ((of_char x :: nat) = of_char y \<and> compare_codes xs ys \<le> 0)" and
    2: "(of_char y :: nat) < of_char z \<or> ((of_char y :: nat) = of_char z \<and> compare_codes ys zs \<le> 0)"
    by (simp_all only: cc_Cons)
  from 1 2 Cons.IH [of ys zs] have
    "(of_char x :: nat) < of_char z \<or> ((of_char x :: nat) = of_char z \<and> compare_codes xs zs \<le> 0)"
    by linarith
  then show ?case unfolding c by (simp only: cc_Cons)
qed

lemma cc_consistent: "consistent compare_codes"
  unfolding consistent_def using cc_total cc_trans by blast

section \<open>TreeBuilder: properties\<close>

declare buildTree.simps [simp del] tree_lines.simps [simp del]

lemma tree_entries_sorted:
  "consistent lc \<Longrightarrow> sorted_wrt (\<lambda>a b. dirent_compare lc a b \<le> 0) (tree_entries lc raw)"
  unfolding tree_entries_def
  by (intro sorted_wrt_filter sorted_sort_cmp consistent_dirent_compare)

lemma tree_entries_order:
  assumes "consistent lc"
  shows "tree_entries lc raw =
           filter isDirectory (tree_entries lc raw) @
           filter (\<lambda>e. \<not> isDirectory e) (tree_entries lc raw)"
    and "sorted_wrt (\<lambda>a b. lc (fst a) (fst b) \<le> 0) (filter isDirectory (tree_entries lc raw))"
    and "sorted_wrt (\<lambda>a b. lc (fst a) (fst b) \<le> 0)
           (filter (\<lambda>e. \<not> isDirectory e) (tree_entries lc raw))"
proof -
  note s = tree_entries_sorted [OF assms, of raw]
  show "tree_entries lc raw =
           filter isDirectory (tree_entries lc raw) @
           filter (\<lambda>e. \<not> isDirectory e) (tree_entries lc raw)"
    using s by (rule sorted_dirs_first)
  show "sorted_wrt (\<lambda>a b. lc (fst a) (fst b) \<le> 0) (filter isDirectory (tree_entries lc raw))"
    using s by (rule sorted_names_in_kind) auto
  show "sorted_wrt (\<lambda>a b. lc (fst a) (fst b) \<le> 0)
           (filter (\<lambda>e. \<not> isDirectory e) (tree_entries lc raw))"
    using s by (rule sorted_names_in_kind) auto
qed

lemma tree_entries_visible:
  "e \<in> set (tree_entries lc raw) \<longleftrightarrow>
     e \<in> set raw \<and> \<not> startsWith (fst e) ''.'' \<and> fst e \<noteq> ''node_modules''"
  by (auto simp: tree_entries_def set_sort_cmp)

lemma buildTree_unfold:
  "buildTree lc dir c m p =
     (if c > m then []
      else case readdirSync dir of
        None \<Rightarrow> [p @ ''[Permission denied]'']
      | Some raw \<Rightarrow>
          concat (map (\<lambda>ie. entry_line p (length (tree_entries lc raw)) ie #
              (if isDirectory (snd ie) \<and> c < m
               then buildTree lc (snd (snd ie)) (Suc c) m
                      (p @ childPrefix_of (fst ie = length (tree_entries lc raw) - 1))
               else []))
            (enumerate 0 (tree_entries lc raw))))"
  by (subst buildTree.simps)
    (auto simp: Let_def entry_line_def split: option.splits prod.splits
      intro!: arg_cong [where f = concat] map_cong)

lemma tree_lines_unfold:
  "tree_lines lc dir c m p =
     (if c > m then []
      else case readdirSync dir of
        None \<Rightarrow> [(c, p @ ''[Permission denied]'')]
      | Some raw \<Rightarrow>
          concat (map (\<lambda>ie. (c, entry_line p (length (tree_entries lc raw)) ie) #
              (if isDirectory (snd ie) \<and> c < m
               then tree_lines lc (snd (snd ie)) (Suc c) m
                      (p @ childPrefix_of (fst ie = length (tree_entries lc raw) - 1))
               else []))
            (enumerate 0 (tree_entries lc raw))))"
  by (subst tree_lines.simps)
    (auto simp: Let_def entry_line_def split: option.splits prod.splits
      intro!: arg_cong [where f = concat] map_cong)

lemma tree_lines_project: "map snd (tree_lines lc dir c m p) = buildTree lc dir c m p"
proof (induction "m - c" arbitrary: dir c p)
  case 0
  show ?case
    by (subst tree_lines_unfold, subst buildTree_unfold)
      (use 0 in \<open>auto simp: map_concat comp_def split: option.splits
        intro!: arg_cong [where f = concat] map_cong\<close>)
next
  case (Suc k)
  have ih: "map snd (tree_lines lc d (Suc c) m q) = buildTree lc d (Suc c) m q" for d q
    using Suc.hyps(2) by (intro Suc.hyps(1)) simp
  show ?case
    by (subst tree_lines_unfold, subst buildTree_unfold)
      (auto simp: map_concat comp_def ih split: option.splits
        intro!: arg_cong [where f = concat] map_cong)
qed

lemma tree_lines_depth:
  "dl \<in> set (tree_lines lc dir c m p) \<Longrightarrow> c \<le> fst dl \<and> fst dl \<le> m"
proof (induction "m - c" arbitrary: dir c p)
  case 0
  from 0(2) show ?case
    by (subst (asm) tree_lines_unfold) (use 0(1) in \<open>auto split: if_splits option.splits\<close>)
next
  case (Suc k)
  have ih: "dl \<in> set (tree_lines lc d (Suc c) m q) \<Longrightarrow> Suc c \<le> fst dl \<and> fst dl \<le> m" for d q
    using Suc.hyps(2) by (intro Suc.hyps(1)) simp_all
  from Suc.prems show ?case
    by (subst (asm) tree_lines_unfold) (use Suc.hyps(2) in \<open>auto split: if_splits option.splits dest: ih\<close>)
qed

lemma buildTree_same_depth: "buildTree lc dir c c p = level_lines lc dir p"
  by (subst buildTree_unfold) (simp add: level_lines_def split: option.splits)

lemma tree_lines_level:
  assumes "c \<le> m"
  shows "map snd (filter (\<lambda>dl. fst dl = c) (tree_lines lc (Dir raw) c m p)) =
         map (entry_line p (length (tree_entries lc raw))) (enumerate 0 (tree_entries lc raw))"
proof -
  have deeper: "filter (\<lambda>dl. fst dl = c) (tree_lines lc d (Suc c) m q) = []" for d q
  proof -
    have "fst dl \<noteq> c" if "dl \<in> set (tree_lines lc d (Suc c) m q)" for dl
      using tree_lines_depth [OF that] by simp
    then show ?thesis by (simp add: filter_empty_conv)
  qed
  have sub: "map snd (filter (\<lambda>dl. fst dl = c)
      (if b then tree_lines lc d (Suc c) m q else [])) = []" for b d q
    by (simp add: deeper)
  show ?thesis
    by (subst tree_lines_unfold)
      (use assms in \<open>simp add: filter_concat comp_def map_concat sub\<close>)
qed

text \<open>
  Claim C6. With \<open>maxDepth = 1\<close> the tree of a directory has one line for each listed
  immediate child and nothing else (for a directory that cannot be read, the placeholder
  alone); with \<open>maxDepth = 2\<close> the line of each child directory is followed by the lines
  of that directory's own level, the grandchildren. Every line that \<open>buildTree\<close>
  writes, started at depth 1, is written at a depth between 1 and \<open>maxDepth\<close>: no entry
  of a greater depth appears.
\<close>

theorem buildTree_depth_bound:
  "buildTree lc (Dir raw) 1 1 pfx =
     map (entry_line pfx (length (tree_entries lc raw))) (enumerate 0 (tree_entries lc raw)) \<and>
   set (tree_entries lc raw) \<subseteq> set raw \<and>
   (readdirSync dir = None \<longrightarrow> buildTree lc dir 1 1 pfx = [pfx @ ''[Permission denied]'']) \<and>
   buildTree lc (Dir raw) 1 2 pfx =
     concat (map (\<lambda>ie. entry_line pfx (length (tree_entries lc raw)) ie #
         (if isDirectory (snd ie)
          then level_lines lc (snd (snd ie))
                 (pfx @ childPrefix_of (fst ie = length (tree_entries lc raw) - 1))
          else []))
       (enumerate 0 (tree_entries lc raw))) \<and>
   map snd (tree_lines lc dir 1 maxDepth pfx) = buildTree lc dir 1 maxDepth pfx \<and>
   (\<forall>dl \<in> set (tree_lines lc dir 1 maxDepth pfx). 1 \<le> fst dl \<and> fst dl \<le> maxDepth)"
proof -
  have one: "buildTree lc (Dir raw) 1 1 pfx =
     map (entry_line pfx (length (tree_entries lc raw))) (enumerate 0 (tree_entries lc raw))"
    by (simp add: buildTree_same_depth level_lines_def)
  have sub: "set (tree_entries lc raw) \<subseteq> set raw"
    by (auto simp: tree_entries_visible)
  have denied: "buildTree lc dir 1 1 pfx = [pfx @ ''[Permission denied]'']"
    if "readdirSync dir = None"
    using that by (simp add: buildTree_same_depth level_lines_def)
  have two: "buildTree lc (Dir raw) 1 2 pfx =
     concat (map (\<lambda>ie. entry_line pfx (length (tree_entries lc raw)) ie #
         (if isDirectory (snd ie)
          then level_lines lc (snd (snd ie))
                 (pfx @ childPrefix_of (fst ie = length (tree_entries lc raw) - 1))
          else []))
       (enumerate 0 (tree_entries lc raw)))"
  proof -
    have bt2: "buildTree lc d (Suc (Suc 0)) 2 q = level_lines lc d q" for d q
      using buildTree_same_depth [of lc d 2 q] by (simp add: numeral_2_eq_2)
    show ?thesis
      by (subst buildTree_unfold) (simp add: bt2 cong: if_cong)
  qed
  have depth: "\<forall>dl \<in> set (tree_lines lc dir 1 maxDepth pfx). 1 \<le> fst dl \<and> fst dl \<le> maxDepth"
    using tree_lines_depth [of _ lc dir 1 maxDepth pfx] by blast
  show ?thesis
    using one sub denied two depth tree_lines_project [of lc dir 1 maxDepth pfx] by blast
qed

theorem buildTree_depth_bound_witness:
  "readdirSync Unreadable = None \<and>
   buildTree compare_codes Unreadable 1 1 [] = [''[Permission denied]''] \<and>
   (2, childPrefix_of False @ connector_of True @ ''main.txt'') \<in> set (tree_lines compare_codes example_tree 1 2 []) \<and>
   (1::nat) \<le> 2 \<and> (2::nat) \<le> 2 \<and>
   buildTree compare_codes example_tree 1 1 [] =
     [connector_of False @ ''src/'', connector_of True @ ''notes.txt'']"
proof -
  have m: "(2, childPrefix_of False @ connector_of True @ ''main.txt'') \<in> set (tree_lines compare_codes example_tree 1 2 [])"
    by code_simp
  have v: "buildTree compare_codes example_tree 1 1 [] =
     [connector_of False @ ''src/'', connector_of True @ ''notes.txt'']"
    by code_simp
  have n: "readdirSync Unreadable = None"
    by simp
  show ?thesis
    using m v n buildTree_depth_bound [of compare_codes "[]" "[]" Unreadable 2]
      buildTree_depth_bound [of compare_codes "[]" "[]" example_tree 2]
    by auto
qed

text \<open>
  Claim C7. For a collation that is consistent, the entries that \<open>buildTree\<close> lists for
  a directory are the directories followed by the other entries, each of the two groups
  ascending by name in the collation, and they are the entries of the directory whose
  name neither starts with a dot nor is \<open>node_modules\<close>. The lines that the tree has at
  the depth of that directory's level are the lines of these entries, in this order.
\<close>

theorem buildTree_level_order:
  assumes "consistent lc"
  shows
  "tree_entries lc raw =
     filter isDirectory (tree_entries lc raw) @ filter (\<lambda>e. \<not> isDirectory e) (tree_entries lc raw) \<and>
   sorted_wrt (\<lambda>a b. lc (fst a) (fst b) \<le> 0) (filter isDirectory (tree_entries lc raw)) \<and>
   sorted_wrt (\<lambda>a b. lc (fst a) (fst b) \<le> 0) (filter (\<lambda>e. \<not> isDirectory e) (tree_entries lc raw)) \<and>
   (\<forall>e. e \<in> set (tree_entries lc raw) \<longleftrightarrow>
        e \<in> set raw \<and> \<not> startsWith (fst e) ''.'' \<and> fst e \<noteq> ''node_modules'') \<and>
   (currentDepth \<le> maxDepth \<longrightarrow>
      map snd (filter (\<lambda>dl. fst dl = currentDepth) (tree_lines lc (Dir raw) currentDepth maxDepth pfx)) =
        map (entry_line pfx (length (tree_entries lc raw))) (enumerate 0 (tree_entries lc raw))) \<and>
   map snd (tree_lines lc (Dir raw) currentDepth maxDepth pfx) =
     buildTree lc (Dir raw) currentDepth maxDepth pfx"
  using tree_entries_order [OF assms, of raw] tree_entries_visible [of _ lc raw]
    tree_lines_level [of currentDepth maxDepth lc raw pfx]
    tree_lines_project [of lc "Dir raw" currentDepth maxDepth pfx]
  by blast

theorem buildTree_level_order_witness:
  "consistent compare_codes \<and> (1::nat) \<le> 2 \<and>
   tree_entries compare_codes
     [(''z.ts'', File []), (''src'', Dir []), (''.env'', File []), (''a.ts'', File []),
      (''node_modules'', Dir []), (''docs'', Dir [])] =
     [(''docs'', Dir []), (''src'', Dir []), (''a.ts'', File []), (''z.ts'', File [])] \<and>
   sorted_wrt (\<lambda>a b. compare_codes (fst a) (fst b) \<le> 0)
     (filter isDirectory (tree_entries compare_codes
       [(''z.ts'', File []), (''src'', Dir []), (''.env'', File []), (''a.ts'', File []),
        (''node_modules'', Dir []), (''docs'', Dir [])]))"
proof -
  have v: "tree_entries compare_codes
     [(''z.ts'', File []), (''src'', Dir []), (''.env'', File []), (''a.ts'', File []),
      (''node_modules'', Dir []), (''docs'', Dir [])] =
     [(''docs'', Dir []), (''src'', Dir []), (''a.ts'', File []), (''z.ts'', File [])]"
    by code_simp
  show ?thesis
    using v cc_consistent
      buildTree_level_order [OF cc_consistent,
        of "[(''z.ts'', File []), (''src'', Dir []), (''.env'', File []), (''a.ts'', File []),
             (''node_modules'', Dir []), (''docs'', Dir [])]" 1 2 "[]"]
    by simp
qed

section \<open>FileFinder: properties\<close>

lemma walk_Nil: "walk cwd (Dir []) dp pat root = []"
  by (simp add: walk_def)

lemma walk_not_dir: "readdirSync dir = None \<Longrightarrow> walk cwd dir dp pat root = []"
  by (cases dir) (simp_all add: walk_def)

lemma walk_Cons:
  "walk cwd (Dir (entry # rest)) dp pat root =
     (if startsWith (fst entry) ''.'' \<or> fst entry = ''node_modules'' then []
      else if isDirectory entry then walk cwd (snd entry) (path_join [dp, fst entry]) pat root
      else if regex_test pat (fst entry)
        then [path_relative cwd root (path_join [dp, fst entry])]
      else []) @ walk cwd (Dir rest) dp pat root"
  by (simp add: walk_def)

lemma take_append_take:
  "(rs @ take (m - length rs) ws) @ take (m - length (rs @ take (m - length rs) ws)) xs
     = rs @ take (m - length rs) (ws @ xs)"
  by (simp add: min_def)

lemma findFiles_take:
  "findFilesRecursive cwd dir dp pat results root m =
     results @ take (m - length results) (walk cwd dir dp pat root)"
  "findFiles_loop cwd entries dp pat results root m =
     results @ take (m - length results) (walk cwd (Dir entries) dp pat root)"
proof (induction cwd dir dp pat results root m and cwd entries dp pat results root m
    rule: findFilesRecursive_findFiles_loop.induct)
  case (1 cwd dir dirPath pattern results rootPath maxResults)
  show ?case
  proof (cases "length results \<ge> maxResults")
    case True
    then show ?thesis by simp
  next
    case False
    show ?thesis
    proof (cases "readdirSync dir")
      case None
      then show ?thesis using False by (simp add: walk_not_dir)
    next
      case (Some entries)
      then have "dir = Dir entries" by (cases dir) auto
      then show ?thesis using False Some "1.IH" [OF False Some] by simp
    qed
  qed
next
  case (2 cwd dirPath pattern results rootPath maxResults)
  show ?case by (simp add: walk_Nil)
next
  case (3 cwd entry rest dirPath pattern results rootPath maxResults)
  let ?full = "path_join [dirPath, fst entry]"
  let ?rel = "path_relative cwd rootPath ?full"
  show ?case
  proof (cases "length results \<ge> maxResults")
    case True
    then show ?thesis by simp
  next
    case notfull: False
    show ?thesis
    proof (cases "startsWith (fst entry) ''.'' \<or> fst entry = ''node_modules''")
      case True
      then show ?thesis using notfull "3.IH"(1) [OF notfull True]
        by (simp add: walk_Cons)
    next
      case vis: False
      show ?thesis
      proof (cases "isDirectory entry")
        case True
        note ih1 = "3.IH"(2) [OF notfull vis refl refl True]
        note ih2 = "3.IH"(3) [OF notfull vis refl refl True]
        let ?sub = "findFilesRecursive cwd (snd entry) ?full pattern results rootPath maxResults"
        let ?W = "walk cwd (snd entry) ?full pattern rootPath"
        let ?R = "walk cwd (Dir rest) dirPath pattern rootPath"
        have "findFiles_loop cwd (entry # rest) dirPath pattern results rootPath maxResults =
              findFiles_loop cwd rest dirPath pattern ?sub rootPath maxResults"
          using notfull vis True by (simp del: findFilesRecursive.simps)
        also have "\<dots> = ?sub @ take (maxResults - length ?sub) ?R"
          by (rule ih2)
        also have "\<dots> = (results @ take (maxResults - length results) ?W) @
            take (maxResults - length (results @ take (maxResults - length results) ?W)) ?R"
          by (simp only: ih1)
        also have "\<dots> = results @ take (maxResults - length results) (?W @ ?R)"
          by (rule take_append_take)
        also have "?W @ ?R = walk cwd (Dir (entry # rest)) dirPath pattern rootPath"
          using vis True by (simp add: walk_Cons)
        finally show ?thesis .
      next
        case nd: False
        show ?thesis
        proof (cases "regex_test pattern (fst entry)")
          case True
          have k: "maxResults - length results = Suc (maxResults - Suc (length results))"
            using notfull by simp
          show ?thesis using notfull vis nd True "3.IH"(4) [OF notfull vis refl refl nd True]
            by (simp add: walk_Cons k)
        next
          case False
          show ?thesis using notfull vis nd False "3.IH"(5) [OF notfull vis refl refl nd False]
            by (simp add: walk_Cons)
        qed
      qed
    qed
  qed
qed

lemma length_filter_mono:
  "(\<And>x. x \<in> set xs \<Longrightarrow> P x \<Longrightarrow> Q x) \<Longrightarrow> length (filter P xs) \<le> length (filter Q xs)"
  by (induction xs) auto

text \<open>
  Claim C2, as stated: the collected paths are in the order of the tree view, as if every
  directory were read with its directories first and each kind by name. The source does
  not sort what the read returns. For \<open>example_tree\<close>, whose root is read by name, the
  file \<open>notes.txt\<close> before the directory \<open>src\<close>, the file is collected first, while the
  order of the tree view puts \<open>src/main.txt\<close> first.
\<close>

theorem findFiles_order_counterexample:
  "findFilesRecursive ''/'' example_tree ''/repo'' (globToRegex ''*'') [] ''/repo'' 1000
     = [''notes.txt'', ''src/main.txt''] \<and>
   take 1000 (walk ''/'' (sort_tree compare_codes example_tree) ''/repo'' (globToRegex ''*'') ''/repo'')
     = [''src/main.txt'', ''notes.txt''] \<and>
   findFilesRecursive ''/'' example_tree ''/repo'' (globToRegex ''*'') [] ''/repo'' 1000
     \<noteq> take 1000 (walk ''/'' (sort_tree compare_codes example_tree) ''/repo'' (globToRegex ''*'') ''/repo'')"
  by code_simp

text \<open>
  Claim C2, amended: the collected paths are an initial part of the depth-first walk
  that takes each directory's entries in the order in which the read returns them, a
  subdirectory's matches standing at the place of the subdirectory among the files: the
  first \<open>maxResults\<close> paths of that walk. No sorting is applied.
\<close>

theorem findFiles_read_order:
  "findFilesRecursive cwd dir dirPath pattern [] rootPath maxResults =
     take maxResults (walk cwd dir dirPath pattern rootPath) \<and>
   prefix (findFilesRecursive cwd dir dirPath pattern [] rootPath maxResults)
     (walk cwd dir dirPath pattern rootPath)"
proof -
  have eq: "findFilesRecursive cwd dir dirPath pattern [] rootPath maxResults =
     take maxResults (walk cwd dir dirPath pattern rootPath)"
    using findFiles_take(1) [of cwd dir dirPath pattern "[]" rootPath maxResults] by simp
  moreover have "prefix (take maxResults (walk cwd dir dirPath pattern rootPath))
     (walk cwd dir dirPath pattern rootPath)"
    by (rule take_is_prefix)
  ultimately show ?thesis by simp
qed

theorem findFiles_read_order_witness:
  "walk ''/'' example_tree ''/repo'' (globToRegex ''*'') ''/repo'' = [''notes.txt'', ''src/main.txt''] \<and>
   findFilesRecursive ''/'' example_tree ''/repo'' (globToRegex ''*'') [] ''/repo'' 1 = [''notes.txt''] \<and>
   prefix (findFilesRecursive ''/'' example_tree ''/repo'' (globToRegex ''*'') [] ''/repo'' 1)
     [''notes.txt'', ''src/main.txt'']"
proof -
  have w: "walk ''/'' example_tree ''/repo'' (globToRegex ''*'') ''/repo'' =
      [''notes.txt'', ''src/main.txt'']"
    by code_simp
  show ?thesis
    using findFiles_read_order [of "''/''" example_tree "''/repo''" "globToRegex ''*''" "''/repo''" 1]
    by (simp add: w)
qed

text \<open>
  Claim C5, as stated, ends: with the pattern \<open>*\<close> and the bound 2, a tree with at least two
  files gives exactly two results. The walk leaves out every entry whose name starts
  with a dot and everything under \<open>node_modules\<close>, so a tree whose only files are hidden
  gives none.
\<close>

theorem findFiles_hidden_files_counterexample:
  "findFilesRecursive ''/'' (Dir [(''.env'', File ''a''), (''.gitignore'', File ''b'')]) ''/repo''
     (globToRegex ''*'') [] ''/repo'' 2 = [] \<and>
   length (findFilesRecursive ''/'' (Dir [(''.env'', File ''a''), (''.gitignore'', File ''b'')]) ''/repo''
     (globToRegex ''*'') [] ''/repo'' 2) \<noteq> 2"
  by code_simp

text \<open>
  Claim C5, amended. \<open>findFilesRecursive\<close>, started with no results, returns at most
  \<open>maxResults\<close> paths: the first \<open>maxResults\<close> of the walk, so it stops where the bound
  is reached, wherever that is in a directory. When at least \<open>maxResults\<close> of the
  candidates (the entries that are not directories and not excluded; the regular files
  are among them) match the pattern it returns exactly \<open>maxResults\<close>. In particular,
  with the pattern \<open>*\<close> and the bound 2, a tree with at least two regular files that are
  not excluded and that the pattern accepts gives exactly two results.
\<close>

theorem findFiles_cap:
  "length (findFilesRecursive cwd dir dirPath pattern [] rootPath maxResults) \<le> maxResults \<and>
   findFilesRecursive cwd dir dirPath pattern [] rootPath maxResults =
     take maxResults (walk cwd dir dirPath pattern rootPath) \<and>
   (maxResults \<le> length (filter (\<lambda>c. regex_test pattern (fst (snd c))) (candidates dir dirPath)) \<longrightarrow>
      length (findFilesRecursive cwd dir dirPath pattern [] rootPath maxResults) = maxResults) \<and>
   (maxResults \<le> length (filter (\<lambda>c. isFile (snd c) \<and> regex_test pattern (fst (snd c)))
        (candidates dir dirPath)) \<longrightarrow>
      length (findFilesRecursive cwd dir dirPath pattern [] rootPath maxResults) = maxResults) \<and>
   (2 \<le> length (filter (\<lambda>c. isFile (snd c) \<and> regex_test (globToRegex ''*'') (fst (snd c)))
        (candidates dir dirPath)) \<longrightarrow>
      length (findFilesRecursive cwd dir dirPath (globToRegex ''*'') [] rootPath 2) = 2)"
proof -
  have eq: "findFilesRecursive cwd dir dirPath pat [] rootPath k =
     take k (walk cwd dir dirPath pat rootPath)" for pat k
    using findFiles_take(1) [of cwd dir dirPath pat "[]" rootPath k] by simp
  have len: "length (walk cwd dir dirPath pat rootPath) =
     length (filter (\<lambda>c. regex_test pat (fst (snd c))) (candidates dir dirPath))" for pat
    by (simp add: walk_def)
  have files: "length (filter (\<lambda>c. isFile (snd c) \<and> regex_test pat (fst (snd c)))
        (candidates dir dirPath))
      \<le> length (filter (\<lambda>c. regex_test pat (fst (snd c))) (candidates dir dirPath))" for pat
    by (rule length_filter_mono) simp
  show ?thesis
    using files [of pattern] files [of "globToRegex ''*''"]
    by (simp add: eq len del: findFilesRecursive.simps)
qed

theorem findFiles_cap_witness:
  "(1::nat) \<le> length (filter (\<lambda>c. regex_test (globToRegex ''*.txt'') (fst (snd c)))
        (candidates example_tree ''/repo'')) \<and>
   (1::nat) \<le> length (filter (\<lambda>c. isFile (snd c) \<and> regex_test (globToRegex ''*.txt'') (fst (snd c)))
        (candidates example_tree ''/repo'')) \<and>
   (2::nat) \<le> length (filter (\<lambda>c. isFile (snd c) \<and> regex_test (globToRegex ''*'') (fst (snd c)))
        (candidates example_tree ''/repo'')) \<and>
   length (findFilesRecursive ''/'' example_tree ''/repo'' (globToRegex ''*.txt'') [] ''/repo'' 1) = 1 \<and>
   length (findFilesRecursive ''/'' example_tree ''/repo'' (globToRegex ''*'') [] ''/repo'' 2) = 2"
proof -
  have h1: "(1::nat) \<le> length (filter (\<lambda>c. regex_test (globToRegex ''*.txt'') (fst (snd c)))
        (candidates example_tree ''/repo''))"
    by code_simp
  have h2: "(1::nat) \<le> length (filter (\<lambda>c. isFile (snd c) \<and> regex_test (globToRegex ''*.txt'') (fst (snd c)))
        (candidates example_tree ''/repo''))"
    by code_simp
  have h4: "(2::nat) \<le> length (filter (\<lambda>c. isFile (snd c) \<and> regex_test (globToRegex ''*'') (fst (snd c)))
        (candidates example_tree ''/repo''))"
    by code_simp
  show ?thesis
    using h1 h2 h4 findFiles_cap [of "''/''" example_tree "''/repo''" "globToRegex ''*.txt''" "''/repo''" 1]
    by blast
qed

section \<open>Operations: properties\<close>

lemma run_operation_dispatch:
  assumes "p_rootPath p \<noteq> []"
    and "getStats h (resolve (h_cwd h) [p_rootPath p]) = Some rootStats"
    and "st_isDirectory rootStats"
  shows "run_operation h p =
     (let operation = p_operation p; resolvedRoot = resolve (h_cwd h) [p_rootPath p] in
      if operation = ''listDirectory'' then op_listDirectory h p resolvedRoot
      else if operation = ''readFile'' then op_readFile h p resolvedRoot
      else if operation = ''grep'' then op_grep h p resolvedRoot
      else if operation = ''findFiles'' then op_findFiles h p resolvedRoot
      else if operation = ''fileInfo'' then op_fileInfo h p resolvedRoot
      else if operation = ''tree'' then op_tree h p resolvedRoot
      else Inl (Raised (NodeOperationError (''Unknown operation: '' @ operation))))"
  using assms by (simp add: run_operation_def Let_def)

lemma getStats_File:
  "lookup (h_fs h) (segments fp) = Some (File c) \<Longrightarrow>
   \<exists>st. getStats h fp = Some st \<and> st_isFile st \<and> \<not> st_isDirectory st \<and> st_meta st = h_meta h fp"
  by (simp add: getStats_def)

lemma getStats_Dir:
  "lookup (h_fs h) (segments fp) = Some (Dir es) \<Longrightarrow>
   \<exists>st. getStats h fp = Some st \<and> \<not> st_isFile st \<and> st_isDirectory st \<and> st_meta st = h_meta h fp"
  by (simp add: getStats_def)

lemma example_root:
  "getStats example_host (resolve (h_cwd example_host) [''/repo'']) = Some example_stats"
  "st_isDirectory example_stats"
  by code_simp+

lemma structural_errors:
  "p_rootPath p = [] \<Longrightarrow> run_operation h p = Inl (Raised (NodeOperationError ''Root path is required''))"
  "p_rootPath p \<noteq> [] \<Longrightarrow> getStats h (resolve (h_cwd h) [p_rootPath p]) = None \<Longrightarrow>
     run_operation h p = Inl (Raised (NodeOperationError
       (''Root path does not exist or is not a directory: '' @ resolve (h_cwd h) [p_rootPath p])))"
  by (simp_all add: run_operation_def Let_def)

lemma op_readFile_existing:
  assumes "p_path p \<noteq> []"
    and "validatePath (h_cwd h) resolvedRoot (p_path p) = Inr fullPath"
    and "lookup (h_fs h) (segments fullPath) = Some (File content)"
  shows "op_readFile h p resolvedRoot =
     (let lines0 = split_on CHR 0x0A content;
          lines1 = (if p_lineOffset p > 0 then drop (nat (p_lineOffset p)) lines0 else lines0);
          lines = (if p_maxLines p > 0 then take (nat (p_maxLines p)) lines1 else lines1)
      in Inr [(''operation'', JString ''readFile''),
              (''path'', JString (p_path p)),
              (''found'', JBool True),
              (''totalLines'', JNumber (int (length lines0))),
              (''linesReturned'', JNumber (int (length lines))),
              (''lineOffset'', JNumber (p_lineOffset p)),
              (''size'', JString (formatSize (m_size (h_meta h fullPath)))),
              (''sizeBytes'', JNumber (int (m_size (h_meta h fullPath)))),
              (''content'', JString (join [CHR 0x0A] lines)),
              (''lines'', JArray (map (\<lambda>(idx, line).
                   JObject [(''lineNumber'', JNumber (p_lineOffset p + int idx + 1)),
                            (''content'', JString line)]) (enumerate 0 lines)))])"
proof -
  from getStats_File [OF assms(3)] obtain st where
    st: "getStats h fullPath = Some st" "st_isFile st" "st_meta st = h_meta h fullPath"
    by blast
  have rd: "readFileSync h fullPath = Some content"
    using assms(3) by (simp add: readFileSync_def)
  show ?thesis
    using assms(1,2) st rd by (simp add: op_readFile_def Let_def)
qed

text \<open>
  Claim C8. For an existing regular file, \<open>readFile\<close> with a \<open>lineOffset\<close> of \<open>k\<close> and
  \<open>maxLines\<close> of \<open>m\<close>, neither negative, returns the lines \<open>k\<close> to \<open>k + m - 1\<close> of the
  file (all the lines from \<open>k\<close> on when \<open>m = 0\<close>; fewer where the file ends), where the
  lines of the file are the pieces of its contents between line feeds. \<open>totalLines\<close> is
  the number of lines of the file, \<open>linesReturned\<close> the number of lines returned, and
  the returned line at position \<open>i\<close>, counted from 0, carries the line number
  \<open>k + i + 1\<close>.
\<close>

theorem readFile_window:
  assumes "p_operation p = ''readFile''"
    and "p_rootPath p \<noteq> []"
    and "getStats h (resolve (h_cwd h) [p_rootPath p]) = Some rootStats"
    and "st_isDirectory rootStats"
    and "p_path p \<noteq> []"
    and "validatePath (h_cwd h) (resolve (h_cwd h) [p_rootPath p]) (p_path p) = Inr fullPath"
    and "lookup (h_fs h) (segments fullPath) = Some (File content)"
    and "p_lineOffset p = int k" and "p_maxLines p = int m"
    and "lines = split_on CHR 0x0A content"
    and "window = (if m = 0 then drop k lines else take m (drop k lines))"
  shows "\<exists>r. run_operation h p = Inr r \<and>
     map_of r ''found'' = Some (JBool True) \<and>
     map_of r ''totalLines'' = Some (JNumber (int (length lines))) \<and>
     map_of r ''linesReturned'' = Some (JNumber (int (length window))) \<and>
     map_of r ''content'' = Some (JString (join [CHR 0x0A] window)) \<and>
     map_of r ''lines'' = Some (JArray (map (\<lambda>(i, line).
         JObject [(''lineNumber'', JNumber (int k + int i + 1)), (''content'', JString line)])
       (enumerate 0 window))) \<and>
     length window = (if m = 0 then length lines - k else min m (length lines - k)) \<and>
     (\<forall>i < length window. window ! i = lines ! (k + i))"
proof -
  have w: "(if p_maxLines p > 0
            then take (nat (p_maxLines p))
                   (if p_lineOffset p > 0 then drop (nat (p_lineOffset p)) (split_on CHR 0x0A content)
                    else split_on CHR 0x0A content)
            else (if p_lineOffset p > 0 then drop (nat (p_lineOffset p)) (split_on CHR 0x0A content)
                  else split_on CHR 0x0A content)) = window"
    using assms(8,9,10,11) by (cases "k = 0"; cases "m = 0") simp_all
  have run: "run_operation h p = op_readFile h p (resolve (h_cwd h) [p_rootPath p])"
    using assms(1) by (simp add: run_operation_dispatch [OF assms(2,3,4)])
  have res: "run_operation h p =
      Inr [(''operation'', JString ''readFile''),
           (''path'', JString (p_path p)),
           (''found'', JBool True),
           (''totalLines'', JNumber (int (length lines))),
           (''linesReturned'', JNumber (int (length window))),
           (''lineOffset'', JNumber (int k)),
           (''size'', JString (formatSize (m_size (h_meta h fullPath)))),
           (''sizeBytes'', JNumber (int (m_size (h_meta h fullPath)))),
           (''content'', JString (join [CHR 0x0A] window)),
           (''lines'', JArray (map (\<lambda>(idx, line).
                JObject [(''lineNumber'', JNumber (int k + int idx + 1)),
                         (''content'', JString line)]) (enumerate 0 window)))]"
    unfolding run op_readFile_existing [OF assms(5,6,7)] Let_def w
    by (simp only: assms(8,10))
  have len: "length window = (if m = 0 then length lines - k else min m (length lines - k))"
    using assms(11) by (simp add: min.commute)
  have nth: "\<forall>i < length window. window ! i = lines ! (k + i)"
    using assms(11) by (auto simp: nth_drop)
  show ?thesis
    unfolding res using len nth by simp
qed

theorem readFile_window_witness:
  "p_operation (example_params\<lparr>p_operation := ''readFile'', p_path := ''notes.txt'',
       p_lineOffset := 1, p_maxLines := 1\<rparr>) = ''readFile'' \<and>
   lookup (h_fs example_host) (segments ''/repo/notes.txt'') =
     Some (File (''one'' @ [CHR 0x0A] @ ''two'' @ [CHR 0x0A] @ ''three'')) \<and>
   [''two''] = (if (1::nat) = 0 then drop 1 [''one'', ''two'', ''three'']
                else take 1 (drop 1 [''one'', ''two'', ''three''])) \<and>
   (\<exists>r. run_operation example_host
          (example_params\<lparr>p_operation := ''readFile'', p_path := ''notes.txt'',
             p_lineOffset := 1, p_maxLines := 1\<rparr>) = Inr r \<and>
        map_of r ''totalLines'' = Some (JNumber 3) \<and>
        map_of r ''linesReturned'' = Some (JNumber 1) \<and>
        map_of r ''content'' = Some (JString ''two'') \<and>
        map_of r ''lines'' = Some (JArray
          [JObject [(''lineNumber'', JNumber 2), (''content'', JString ''two'')]]))"
proof -
  let ?p = "example_params\<lparr>p_operation := ''readFile'', p_path := ''notes.txt'',
       p_lineOffset := 1, p_maxLines := 1\<rparr>"
  have h1: "p_operation ?p = ''readFile''" by simp
  have h2: "p_rootPath ?p \<noteq> []" by (simp add: example_params_def)
  have h3: "getStats example_host (resolve (h_cwd example_host) [p_rootPath ?p]) = Some example_stats"
    using example_root(1) by (simp add: example_params_def)
  have h5: "p_path ?p \<noteq> []" by simp
  have h6: "validatePath (h_cwd example_host) (resolve (h_cwd example_host) [p_rootPath ?p]) (p_path ?p)
      = Inr ''/repo/notes.txt''"
    by code_simp
  have h7: "lookup (h_fs example_host) (segments ''/repo/notes.txt'') =
     Some (File (''one'' @ [CHR 0x0A] @ ''two'' @ [CHR 0x0A] @ ''three''))"
    by code_simp
  have h8: "p_lineOffset ?p = int 1" and h9: "p_maxLines ?p = int 1" by simp_all
  have h10: "[''one'', ''two'', ''three''] =
      split_on CHR 0x0A (''one'' @ [CHR 0x0A] @ ''two'' @ [CHR 0x0A] @ ''three'')"
    by code_simp
  have h11: "[''two''] = (if (1::nat) = 0 then drop 1 [''one'', ''two'', ''three'']
                else take 1 (drop 1 [''one'', ''two'', ''three'']))"
    by simp
  from readFile_window [OF h1 h2 h3 example_root(2) h5 h6 h7 h8 h9 h10 h11]
  obtain r where r: "run_operation example_host ?p = Inr r"
    and tl: "map_of r ''totalLines'' = Some (JNumber (int (length [''one'', ''two'', ''three''])))"
    and lr: "map_of r ''linesReturned'' = Some (JNumber (int (length [''two''])))"
    and ct: "map_of r ''content'' = Some (JString (join [CHR 0x0A] [''two'']))"
    and ls: "map_of r ''lines'' = Some (JArray (map (\<lambda>(i, line).
         JObject [(''lineNumber'', JNumber (int 1 + int i + 1)), (''content'', JString line)])
       (enumerate 0 [''two''])))"
    by blast
  have "map_of r ''totalLines'' = Some (JNumber 3)"
    using tl by simp
  moreover have "map_of r ''linesReturned'' = Some (JNumber 1)"
    using lr by simp
  moreover have "map_of r ''content'' = Some (JString ''two'')"
    using ct by simp
  moreover have "map_of r ''lines'' = Some (JArray
          [JObject [(''lineNumber'', JNumber 2), (''content'', JString ''two'')]])"
    using ls by simp
  ultimately show ?thesis
    using h1 h7 h11 r by blast
qed

lemma op_listDirectory_readable:
  assumes "validatePath (h_cwd h) resolvedRoot (or_dot (p_path p)) = Inr fullPath"
    and "lookup (h_fs h) (segments fullPath) = Some (Dir raw)"
  shows "op_listDirectory h p resolvedRoot =
     Inr [(''operation'', JString ''listDirectory''),
          (''path'', JString (or_dot (p_path p))),
          (''found'', JBool True),
          (''totalItems'', JNumber (int (length raw))),
          (''directories'', JNumber (int (length (filter (\<lambda>f. fi_type f = ''directory'')
             (sort_cmp (info_compare (h_localeCompare h)) (map (entry_info h fullPath) raw)))))),
          (''files'', JNumber (int (length (filter (\<lambda>f. fi_type f = ''file'')
             (sort_cmp (info_compare (h_localeCompare h)) (map (entry_info h fullPath) raw)))))),
          (''entries'', JArray (map info_json
             (sort_cmp (info_compare (h_localeCompare h)) (map (entry_info h fullPath) raw))))]"
proof -
  from getStats_Dir [OF assms(2)] obtain st where
    st: "getStats h fullPath = Some st" "st_isDirectory st"
    by blast
  have rd: "readdirSync (node_at h fullPath) = Some raw"
    using assms(2) by (simp add: node_at_def)
  show ?thesis
    using assms(1) st rd by (simp add: op_listDirectory_def Let_def length_sort_cmp)
qed

lemma info_json_fields:
  "json_field ''name'' (info_json f) = Some (JString (fi_name f))"
  "json_field ''type'' (info_json f) = Some (JString (fi_type f))"
  by (simp_all add: json_field_def info_json_def)

lemma entry_info_fields:
  "fi_name (entry_info h fullPath e) = fst e"
  "fi_type (entry_info h fullPath e) =
     (if isDirectory e then ''directory''
      else if isFile e then ''file''
      else if isSymbolicLink e then ''symlink''
      else ''other'')"
  by (simp_all add: entry_info_def Let_def)

text \<open>
  Claim C10. For a directory that can be read, \<open>listDirectory\<close> returns one entry for
  each entry of the directory, whatever its name: no entry is left out for a leading dot
  or for being \<open>node_modules\<close>, and \<open>totalItems\<close> is the number of entries that the read
  of the directory returns. The returned \<open>entries\<close> are as many objects as the
  directory has entries; every entry of the directory has an object among them that
  carries its name and its kind, and every object carries the name of an entry.
\<close>

theorem listDirectory_unfiltered:
  assumes "p_operation p = ''listDirectory''"
    and "p_rootPath p \<noteq> []"
    and "getStats h (resolve (h_cwd h) [p_rootPath p]) = Some rootStats"
    and "st_isDirectory rootStats"
    and "validatePath (h_cwd h) (resolve (h_cwd h) [p_rootPath p]) (or_dot (p_path p)) = Inr fullPath"
    and "lookup (h_fs h) (segments fullPath) = Some (Dir raw)"
  shows "\<exists>r js. run_operation h p = Inr r \<and>
     map_of r ''found'' = Some (JBool True) \<and>
     map_of r ''totalItems'' = Some (JNumber (int (length raw))) \<and>
     map_of r ''entries'' = Some (JArray js) \<and>
     length js = length raw \<and>
     js = map info_json
            (sort_cmp (info_compare (h_localeCompare h)) (map (entry_info h fullPath) raw)) \<and>
     (\<forall>e \<in> set raw. \<exists>j \<in> set js.
        json_field ''name'' j = Some (JString (fst e)) \<and>
        json_field ''type'' j = Some (JString
          (if isDirectory e then ''directory''
           else if isFile e then ''file''
           else if isSymbolicLink e then ''symlink''
           else ''other''))) \<and>
     (\<forall>j \<in> set js. \<exists>e \<in> set raw. json_field ''name'' j = Some (JString (fst e)))"
proof -
  let ?files = "sort_cmp (info_compare (h_localeCompare h)) (map (entry_info h fullPath) raw)"
  let ?js = "map info_json ?files"
  let ?r = "projr (op_listDirectory h p (resolve (h_cwd h) [p_rootPath p]))"
  have run: "run_operation h p = op_listDirectory h p (resolve (h_cwd h) [p_rootPath p])"
    using assms(1) by (simp add: run_operation_dispatch [OF assms(2,3,4)])
  note res = op_listDirectory_readable [OF assms(5,6)]
  have s: "set ?files = entry_info h fullPath ` set raw"
    by (simp add: set_sort_cmp)
  have all: "\<forall>e \<in> set raw. \<exists>j \<in> set ?js.
        json_field ''name'' j = Some (JString (fst e)) \<and>
        json_field ''type'' j = Some (JString
          (if isDirectory e then ''directory''
           else if isFile e then ''file''
           else if isSymbolicLink e then ''symlink''
           else ''other''))"
  proof
    fix e assume "e \<in> set raw"
    then have "entry_info h fullPath e \<in> set ?files" using s by blast
    then have "info_json (entry_info h fullPath e) \<in> set ?js" by simp
    moreover have "json_field ''name'' (info_json (entry_info h fullPath e)) = Some (JString (fst e))"
      by (simp only: info_json_fields entry_info_fields)
    moreover have "json_field ''type'' (info_json (entry_info h fullPath e)) = Some (JString
          (if isDirectory e then ''directory''
           else if isFile e then ''file''
           else if isSymbolicLink e then ''symlink''
           else ''other''))"
      by (simp only: info_json_fields entry_info_fields)
    ultimately show "\<exists>j \<in> set ?js.
        json_field ''name'' j = Some (JString (fst e)) \<and>
        json_field ''type'' j = Some (JString
          (if isDirectory e then ''directory''
           else if isFile e then ''file''
           else if isSymbolicLink e then ''symlink''
           else ''other''))"
      by blast
  qed
  have only: "\<forall>j \<in> set ?js. \<exists>e \<in> set raw. json_field ''name'' j = Some (JString (fst e))"
  proof
    fix j assume "j \<in> set ?js"
    then obtain f where f: "f \<in> set ?files" "j = info_json f" by auto
    then obtain e where e: "e \<in> set raw" "f = entry_info h fullPath e" using s by auto
    have "json_field ''name'' j = Some (JString (fst e))"
      unfolding f(2) e(2) by (simp only: info_json_fields entry_info_fields)
    then show "\<exists>e \<in> set raw. json_field ''name'' j = Some (JString (fst e))"
      using e(1) by blast
  qed
  have fields: "map_of ?r ''found'' = Some (JBool True)"
    "map_of ?r ''totalItems'' = Some (JNumber (int (length raw)))"
    "map_of ?r ''entries'' = Some (JArray ?js)"
    unfolding res by simp_all
  have r: "run_operation h p = Inr ?r"
    unfolding run res by simp
  have len: "length ?js = length raw"
    by (simp add: length_sort_cmp)
  show ?thesis
    using r fields len all only by blast
qed

theorem listDirectory_unfiltered_witness:
  "p_operation example_params = ''listDirectory'' \<and>
   lookup (h_fs example_host) (segments ''/repo'') =
     Some (Dir [(''.git'', Dir [(''HEAD'', File ''z'')]),
                (''notes.txt'', File (''one'' @ [CHR 0x0A] @ ''two'' @ [CHR 0x0A] @ ''three'')),
                (''src'', Dir [(''main.txt'', File ''y'')])]) \<and>
   (\<exists>r js. run_operation example_host example_params = Inr r \<and>
      map_of r ''totalItems'' = Some (JNumber 3) \<and>
      map_of r ''entries'' = Some (JArray js) \<and>
      length js = 3 \<and>
      (\<exists>j \<in> set js. json_field ''name'' j = Some (JString ''.git'') \<and>
                      json_field ''type'' j = Some (JString ''directory'')))"
proof -
  let ?raw = "[(''.git'', Dir [(''HEAD'', File ''z'')]),
                (''notes.txt'', File (''one'' @ [CHR 0x0A] @ ''two'' @ [CHR 0x0A] @ ''three'')),
                (''src'', Dir [(''main.txt'', File ''y'')])]"
  have h1: "p_operation example_params = ''listDirectory''"
    by (simp add: example_params_def)
  have h2: "p_rootPath example_params \<noteq> []"
    by (simp add: example_params_def)
  have h3: "getStats example_host (resolve (h_cwd example_host) [p_rootPath example_params]) = Some example_stats"
    using example_root(1) by (simp add: example_params_def)
  have h5: "validatePath (h_cwd example_host) (resolve (h_cwd example_host) [p_rootPath example_params])
      (or_dot (p_path example_params)) = Inr ''/repo''"
    by code_simp
  have h6: "lookup (h_fs example_host) (segments ''/repo'') = Some (Dir ?raw)"
    by code_simp
  from listDirectory_unfiltered [OF h1 h2 h3 example_root(2) h5 h6]
  obtain r js where r: "run_operation example_host example_params = Inr r"
    and ti: "map_of r ''totalItems'' = Some (JNumber (int (length ?raw)))"
    and en: "map_of r ''entries'' = Some (JArray js)"
    and ln: "length js = length ?raw"
    and al: "\<forall>e \<in> set ?raw. \<exists>j \<in> set js.
        json_field ''name'' j = Some (JString (fst e)) \<and>
        json_field ''type'' j = Some (JString
          (if isDirectory e then ''directory''
           else if isFile e then ''file''
           else if isSymbolicLink e then ''symlink''
           else ''other''))"
    by blast
  have "map_of r ''totalItems'' = Some (JNumber 3)"
    using ti by simp
  moreover have "length js = 3"
    using ln by simp
  moreover have "\<exists>j \<in> set js. json_field ''name'' j = Some (JString ''.git'') \<and>
                      json_field ''type'' j = Some (JString ''directory'')"
    using al by (simp add: isDirectory_def)
  ultimately show ?thesis
    using h1 h6 r en by blast
qed

lemma group_by_file_not_raised: "group_by_file ms byFile \<noteq> Inl (Raised e)"
  by (induction ms byFile rule: group_by_file.induct) (auto split: option.splits)

lemma op_grep_not_raised:
  assumes "p_searchPattern p \<noteq> []"
    and "validatePath (h_cwd h) resolvedRoot (or_dot (p_path p)) = Inr fullPath"
  shows "op_grep h p resolvedRoot \<noteq> Inl (Raised e)"
  using assms group_by_file_not_raised
  by (auto simp: op_grep_def Let_def split: sum.splits)

lemma op_grep_no_output:
  assumes "p_searchPattern p \<noteq> []"
    and "validatePath (h_cwd h) resolvedRoot (or_dot (p_path p)) = Inr fullPath"
    and "grep_output (h_execSync h (grep_command p fullPath)) = []"
  shows "op_grep h p resolvedRoot =
     Inr [(''operation'', JString ''grep''),
          (''pattern'', JString (p_searchPattern p)),
          (''path'', JString (or_dot (p_path p))),
          (''filePattern'', JString (p_filePattern p)),
          (''caseInsensitive'', JBool (p_caseInsensitive p)),
          (''totalMatches'', JNumber 0),
          (''filesWithMatches'', JNumber 0),
          (''matchesByFile'', JObject []),
          (''matches'', JArray [])]"
  using assms by (simp add: op_grep_def Let_def parse_grep_output_def)

text \<open>
  Claim C3, as stated: a grep call with a malformed pattern fails with an error that names
  the pattern. The search is run by an external command; on a malformed expression the
  command exits with a status other than 1 and prints nothing on its standard output
  (the example host's command does so for every call). The source catches every error of
  the call, so the operation returns an ordinary result with no matches.
\<close>

theorem grep_malformed_pattern_counterexample:
  "h_execSync example_host
     (grep_command (example_params\<lparr>p_operation := ''grep'', p_searchPattern := ''(''\<rparr>) ''/repo'')
     = Threw (Some 2) (Some []) \<and>
   run_operation example_host (example_params\<lparr>p_operation := ''grep'', p_searchPattern := ''(''\<rparr>) =
     Inr [(''operation'', JString ''grep''),
          (''pattern'', JString ''(''),
          (''path'', JString ''.''),
          (''filePattern'', JString ''*''),
          (''caseInsensitive'', JBool False),
          (''totalMatches'', JNumber 0),
          (''filesWithMatches'', JNumber 0),
          (''matchesByFile'', JObject []),
          (''matches'', JArray [])] \<and>
   \<not> isl (run_operation example_host
            (example_params\<lparr>p_operation := ''grep'', p_searchPattern := ''(''\<rparr>))"
  by code_simp

text \<open>
  Claim C3, amended: a grep call with a search pattern, a root that is a directory and a
  path inside the root never fails with an error raised for the pattern or for the
  search, whatever the command does; and when the command fails as it does on a
  malformed expression (an exit status of 1, or any failure that leaves no captured
  output), the operation returns the result of a search without matches.
\<close>

theorem grep_absorbs_search_failure:
  assumes "p_operation p = ''grep''"
    and "p_rootPath p \<noteq> []"
    and "getStats h (resolve (h_cwd h) [p_rootPath p]) = Some rootStats"
    and "st_isDirectory rootStats"
    and "p_searchPattern p \<noteq> []"
    and "validatePath (h_cwd h) (resolve (h_cwd h) [p_rootPath p]) (or_dot (p_path p)) = Inr fullPath"
  shows "(\<forall>e. run_operation h p \<noteq> Inl (Raised e)) \<and>
     (h_execSync h (grep_command p fullPath) = Threw status out \<and>
      (status = Some 1 \<or> out = None \<or> out = Some []) \<longrightarrow>
      run_operation h p =
        Inr [(''operation'', JString ''grep''),
             (''pattern'', JString (p_searchPattern p)),
             (''path'', JString (or_dot (p_path p))),
             (''filePattern'', JString (p_filePattern p)),
             (''caseInsensitive'', JBool (p_caseInsensitive p)),
             (''totalMatches'', JNumber 0),
             (''filesWithMatches'', JNumber 0),
             (''matchesByFile'', JObject []),
             (''matches'', JArray [])])"
proof -
  have run: "run_operation h p = op_grep h p (resolve (h_cwd h) [p_rootPath p])"
    using assms(1) by (simp add: run_operation_dispatch [OF assms(2,3,4)])
  have "grep_output (h_execSync h (grep_command p fullPath)) = []"
    if "h_execSync h (grep_command p fullPath) = Threw status out"
      and "status = Some 1 \<or> out = None \<or> out = Some []"
    using that by (auto simp: grep_output_def)
  then show ?thesis
    unfolding run using op_grep_not_raised [OF assms(5,6)] op_grep_no_output [OF assms(5,6)]
    by blast
qed

theorem grep_absorbs_search_failure_witness:
  "p_operation (example_params\<lparr>p_operation := ''grep'', p_searchPattern := ''(''\<rparr>) = ''grep'' \<and>
   p_searchPattern (example_params\<lparr>p_operation := ''grep'', p_searchPattern := ''(''\<rparr>) \<noteq> [] \<and>
   h_execSync example_host
     (grep_command (example_params\<lparr>p_operation := ''grep'', p_searchPattern := ''(''\<rparr>) ''/repo'')
     = Threw (Some 2) (Some []) \<and>
   run_operation example_host (example_params\<lparr>p_operation := ''grep'', p_searchPattern := ''(''\<rparr>) =
     Inr [(''operation'', JString ''grep''),
          (''pattern'', JString ''(''),
          (''path'', JString ''.''),
          (''filePattern'', JString ''*''),
          (''caseInsensitive'', JBool False),
          (''totalMatches'', JNumber 0),
          (''filesWithMatches'', JNumber 0),
          (''matchesByFile'', JObject []),
          (''matches'', JArray [])]"
proof -
  let ?p = "example_params\<lparr>p_operation := ''grep'', p_searchPattern := ''(''\<rparr>"
  have h1: "p_operation ?p = ''grep''" by simp
  have h2: "p_rootPath ?p \<noteq> []" by (simp add: example_params_def)
  have h3: "getStats example_host (resolve (h_cwd example_host) [p_rootPath ?p]) = Some example_stats"
    using example_root(1) by (simp add: example_params_def)
  have h5: "p_searchPattern ?p \<noteq> []" by simp
  have h6: "validatePath (h_cwd example_host) (resolve (h_cwd example_host) [p_rootPath ?p])
      (or_dot (p_path ?p)) = Inr ''/repo''"
    by code_simp
  have x: "h_execSync example_host (grep_command ?p ''/repo'') = Threw (Some 2) (Some [])"
    by (simp add: example_host_def)
  have f: "p_filePattern ?p = ''*''" "p_caseInsensitive ?p = False" "or_dot (p_path ?p) = ''.''"
    by (simp_all add: example_params_def or_dot_def)
  show ?thesis
    using grep_absorbs_search_failure [OF h1 h2 h3 example_root(2) h5 h6, of "Some 2" "Some []"]
      h1 h5 x f by simp
qed

lemma missing_target_reported:
  assumes "p_rootPath p \<noteq> []"
    and "getStats h (resolve (h_cwd h) [p_rootPath p]) = Some rootStats"
    and "st_isDirectory rootStats"
    and "p_path p \<noteq> []"
    and "validatePath (h_cwd h) (resolve (h_cwd h) [p_rootPath p]) (p_path p) = Inr fullPath"
    and "getStats h fullPath = None"
  shows "p_operation p = ''readFile'' \<Longrightarrow> run_operation h p =
           Inr [(''operation'', JString ''readFile''), (''path'', JString (p_path p)),
                (''found'', JBool False),
                (''message'', JString (''File not found: '' @ p_path p))]"
    and "p_operation p = ''fileInfo'' \<Longrightarrow> run_operation h p =
           Inr [(''operation'', JString ''fileInfo''), (''path'', JString (p_path p)),
                (''exists'', JBool False),
                (''message'', JString (''Path not found: '' @ p_path p))]"
    and "p_operation p = ''listDirectory'' \<Longrightarrow> run_operation h p =
           Inr [(''operation'', JString ''listDirectory''), (''path'', JString (p_path p)),
                (''found'', JBool False),
                (''message'', JString (''Directory not found: '' @ p_path p))]"
    and "p_operation p = ''tree'' \<Longrightarrow> run_operation h p =
           Inr [(''operation'', JString ''tree''), (''path'', JString (p_path p)),
                (''found'', JBool False),
                (''message'', JString (''Directory not found: '' @ p_path p))]"
  using assms(4,5,6)
  by (simp_all add: run_operation_dispatch [OF assms(1,2,3)] Let_def or_dot_def
      op_readFile_def op_fileInfo_def op_listDirectory_def op_tree_def)

text \<open>
  Claim C9. An operation whose target path does not exist is meant to return a record with
  \<open>found: false\<close> and a message that holds the path. \<open>listDirectory\<close>, \<open>readFile\<close>,
  \<open>fileInfo\<close> and \<open>tree\<close> do (\<open>missing_target_reported\<close>). \<open>findFiles\<close> does not look
  whether its target exists: for a directory that is missing it returns the record of a
  search that found nothing, without \<open>found\<close> and without a message.
\<close>

theorem findFiles_missing_target_record:
  "lookup (h_fs example_host) (segments ''/repo/missing'') = None \<and>
   run_operation example_host (example_params\<lparr>p_operation := ''findFiles'', p_path := ''missing''\<rparr>) =
     Inr [(''operation'', JString ''findFiles''),
          (''pattern'', JString ''*''),
          (''path'', JString ''missing''),
          (''totalFound'', JNumber 0),
          (''files'', JArray [])] \<and>
   map_of [(''operation'', JString ''findFiles''),
          (''pattern'', JString ''*''),
          (''path'', JString ''missing''),
          (''totalFound'', JNumber 0),
          (''files'', JArray [])] ''found'' = None"
  by code_simp

end
